(* ===== verification/Mtx_Prelude.thy ===== *)
theory Mtx_Prelude
  imports Main "HOL-Library.Word"
begin

text \<open>
  Shared vocabulary of the development: machine integers, the outcome of code that may panic,
  the few functions of the Rust standard library the sources call on strings and slices, and
  the generic lemmas about lists and words that the component theories use.

  \<^item> \<open>u64\<close> is a 64-bit word. Arithmetic wraps, as it does in the release profile the
    project ships (\<^verbatim>\<open>make build-server-release\<close>); theorems that need the absence of
    a wrap-around say so with a bound.
  \<^item> \<open>'a outcome\<close> is the result of code that can panic. Both binaries install a panic hook
    that ends the process (\<^verbatim>\<open>setup_panic_hook\<close>), so \<open>Panic\<close> is final: no state
    survives it.
  \<^item> handles (\<open>chan\<close>, \<open>oneshot\<close>) name the channel ends the tokio runtime hands out.
\<close>

section \<open>Types\<close>

type_synonym u64 = "64 word"
type_synonym chan = nat
type_synonym oneshot = nat
type_synonym instant = nat

datatype 'a outcome = Panic string | Done 'a

text \<open>
  A process, and what the panic hooks of both binaries make of a panic in any of its tasks:
  \<^verbatim>\<open>process::exit(1)\<close>.
\<close>

datatype 'a process = Alive 'a | Exited nat

definition exit_on_panic :: "'a outcome \<Rightarrow> 'a process" where
  "exit_on_panic r = (case r of Done x \<Rightarrow> Alive x | Panic msg \<Rightarrow> Exited 1)"

definition unwrap :: "'a option \<Rightarrow> 'a outcome" where
  "unwrap r = (case r of Some x \<Rightarrow> Done x | None \<Rightarrow> Panic ''called `Result::unwrap()` on an `Err` value'')"

text \<open>The integer an \<^verbatim>\<open>as i64\<close> cast of an unsigned value yields: two's complement.\<close>

definition as_i64 :: "u64 \<Rightarrow> int" where
  "as_i64 w = sint w"

definition usize_as_u64 :: "nat \<Rightarrow> u64" where
  "usize_as_u64 n = word_of_nat n"

named_theorems mtx_simps \<open>unfolding rules of the model's small definitions\<close>
named_theorems mtx_inv \<open>preservation of the component invariants\<close>

section \<open>Outcomes\<close>

fun outcome_bind :: "'a outcome \<Rightarrow> ('a \<Rightarrow> 'b outcome) \<Rightarrow> 'b outcome" where
  "outcome_bind (Panic e) f = Panic e"
| "outcome_bind (Done x) f = f x"

lemma outcome_bind_Done_iff [simp]:
  "outcome_bind m f = Done y \<longleftrightarrow> (\<exists>x. m = Done x \<and> f x = Done y)"
  by (cases m) auto

lemma outcome_not_Done: "(\<forall>x. r \<noteq> Done x) \<longleftrightarrow> (\<exists>e. r = Panic e)"
  by (cases r) auto

section \<open>Strings\<close>

text \<open>
  \<^verbatim>\<open>str::split_whitespace\<close> on the ASCII strings an HTTP header can hold: the maximal runs
  of characters that are not white space.
\<close>

definition is_whitespace :: "char \<Rightarrow> bool" where
  "is_whitespace c \<longleftrightarrow> of_char c \<in> {9, 10, 11, 12, 13, 32 :: nat}"

fun words_acc :: "string \<Rightarrow> string \<Rightarrow> string list" where
  "words_acc acc [] = (if acc = [] then [] else [rev acc])"
| "words_acc acc (c # cs) =
     (if is_whitespace c
      then (if acc = [] then words_acc [] cs else rev acc # words_acc [] cs)
      else words_acc (c # acc) cs)"

definition split_whitespace :: "string \<Rightarrow> string list" where
  "split_whitespace s = words_acc [] s"

definition no_whitespace :: "string \<Rightarrow> bool" where
  "no_whitespace s \<longleftrightarrow> (\<forall>c \<in> set s. \<not> is_whitespace c)"

lemma words_acc_run:
  "no_whitespace w \<Longrightarrow> words_acc acc (w @ s) = words_acc (rev w @ acc) s"
  by (induction w arbitrary: acc) (auto simp: no_whitespace_def)

lemma split_whitespace_word [simp]:
  "no_whitespace w \<Longrightarrow> w \<noteq> [] \<Longrightarrow> split_whitespace w = [w]"
  using words_acc_run [of w "[]" "[]"] by (simp add: split_whitespace_def)

lemma split_whitespace_Cons_word:
  assumes "no_whitespace w" and "w \<noteq> []" and "is_whitespace c"
  shows "split_whitespace (w @ c # s) = w # split_whitespace s"
  using words_acc_run [OF assms(1), of "[]" "c # s"] assms
  by (simp add: split_whitespace_def)

lemma words_acc_sound:
  "no_whitespace acc \<Longrightarrow> w \<in> set (words_acc acc s) \<Longrightarrow> no_whitespace w \<and> w \<noteq> []"
proof (induction s arbitrary: acc)
  case Nil
  then show ?case by (simp add: no_whitespace_def split: if_split_asm)
next
  case (Cons c s)
  have nil: "no_whitespace []" by (simp add: no_whitespace_def)
  show ?case
  proof (cases "is_whitespace c")
    case True
    with Cons.prems(2) have "w = rev acc \<and> acc \<noteq> [] \<or> w \<in> set (words_acc [] s)"
      by (auto split: if_split_asm)
    with Cons.IH [OF nil] Cons.prems(1) show ?thesis
      by (metis no_whitespace_def rev_is_Nil_conv set_rev)
  next
    case False
    with Cons.prems(1) have "no_whitespace (c # acc)" by (simp add: no_whitespace_def)
    with Cons.IH Cons.prems(2) False show ?thesis by simp
  qed
qed

lemma split_whitespace_sound:
  "w \<in> set (split_whitespace s) \<Longrightarrow> no_whitespace w \<and> w \<noteq> []"
  unfolding split_whitespace_def
  by (rule words_acc_sound [of "[]"]) (simp_all add: no_whitespace_def)

text \<open>\<^verbatim>\<open>x.split(':').next()\<close>: the text before the first colon.\<close>

definition before_colon :: "string \<Rightarrow> string" where
  "before_colon s = takeWhile (\<lambda>c. c \<noteq> CHR '':'') s"

text \<open>\<^verbatim>\<open>to_string\<close> of an unsigned integer, and the value such a string denotes.\<close>

fun digits :: "nat \<Rightarrow> string" where
  "digits n = (if n < 10 then [char_of (48 + n)]
               else digits (n div 10) @ [char_of (48 + n mod 10)])"

declare digits.simps [simp del]

definition u64_to_string :: "u64 \<Rightarrow> string" where
  "u64_to_string w = digits (unat w)"

definition digits_value :: "string \<Rightarrow> nat" where
  "digits_value s = foldl (\<lambda>v c. 10 * v + (of_char c - 48)) 0 s"

lemma digits_value_snoc [simp]:
  "digits_value (s @ [c]) = 10 * digits_value s + (of_char c - 48)"
  by (simp add: digits_value_def)

lemma digits_value_digits [simp]: "digits_value (digits n) = n"
proof (induction n rule: digits.induct)
  case (1 n)
  show ?case
  proof (cases "n < 10")
    case True
    then show ?thesis
      by (simp add: digits.simps [of n] digits_value_def)
  next
    case False
    with "1.IH" show ?thesis by (simp add: digits.simps [of n])
  qed
qed

lemma digits_inject [simp]: "digits m = digits n \<longleftrightarrow> m = n"
  by (metis digits_value_digits)

lemma u64_to_string_inject [simp]: "u64_to_string v = u64_to_string w \<longleftrightarrow> v = w"
  by (simp add: u64_to_string_def word_unat_eq_iff)

section \<open>Slices\<close>

text \<open>
  \<^verbatim>\<open>slice::chunks(n)\<close> for \<open>n > 0\<close>: consecutive pieces of length \<open>n\<close>, the last one
  possibly shorter. The library panics on \<open>n = 0\<close>; callers in the model test for it.
\<close>

function chunks :: "nat \<Rightarrow> 'a list \<Rightarrow> 'a list list" where
  "chunks n xs = (if n = 0 \<or> xs = [] then [] else take n xs # chunks n (drop n xs))"
  by pat_completeness auto
termination
  by (relation "measure (\<lambda>(n, xs). length xs)") auto

declare chunks.simps [simp del]

lemma chunks_Nil [simp]: "chunks n [] = []"
  by (simp add: chunks.simps)

lemma chunks_step:
  "0 < n \<Longrightarrow> xs \<noteq> [] \<Longrightarrow> chunks n xs = take n xs # chunks n (drop n xs)"
  by (subst chunks.simps) simp

lemma concat_chunks: "0 < n \<Longrightarrow> concat (chunks n xs) = xs"
proof (induction n xs rule: chunks.induct)
  case (1 n xs)
  then show ?case by (cases "xs = []") (simp_all add: chunks_step)
qed

section \<open>Lists and sums\<close>

lemma map_filter_Some_conv: "List.map_filter (\<lambda>x. Some (f x)) xs = map f xs"
  by (induction xs) (simp_all add: List.map_filter_simps)

lemma set_map_filter: "set (List.map_filter f xs) = {y. \<exists>x \<in> set xs. f x = Some y}"
  by (force simp: List.map_filter_def)

lemma length_filter_update:
  "i < length xs \<Longrightarrow>
     length (filter P (xs[i := x])) + (if P (xs ! i) then 1 else 0) = length (filter P xs) + (if P x then 1 else 0)"
proof (induction xs arbitrary: i)
  case (Cons y ys)
  then show ?case by (cases i) auto
qed simp

lemma length_map_filter_le: "length (List.map_filter f xs) \<le> length xs"
  by (simp add: List.map_filter_def)

lemma unat_sum_list_no_wrap:
  fixes ws :: "u64 list"
  assumes "sum_list (map unat ws) < 2 ^ 64"
  shows "unat (sum_list ws) = sum_list (map unat ws)"
  using assms
proof (induction ws)
  case Nil
  then show ?case by simp
next
  case (Cons w ws)
  then have "unat (sum_list ws) = sum_list (map unat ws)" by simp
  with Cons.prems show ?case by (simp add: unat_word_ariths)
qed

lemma unat_add_no_wrap:
  fixes a b :: u64
  shows "unat a + unat b < 2 ^ 64 \<Longrightarrow> unat (a + b) = unat a + unat b"
  by (simp add: unat_word_ariths)

lemma unat_mult_no_wrap:
  fixes a b :: u64
  shows "unat a * unat b < 2 ^ 64 \<Longrightarrow> unat (a * b) = unat a * unat b"
  by (simp add: unat_word_ariths)

lemma unat_usize_as_u64: "n < 2 ^ 64 \<Longrightarrow> unat (usize_as_u64 n) = n"
  by (simp add: usize_as_u64_def unat_of_nat)

lemma as_i64_small: "unat w < 2 ^ 63 \<Longrightarrow> as_i64 w = int (unat w)"
proof -
  assume "unat w < 2 ^ 63"
  then have "uint w < 2 ^ 63" by transfer (simp add: nat_less_iff)
  then have "signed_take_bit 63 (uint w) = uint w"
    by (intro signed_take_bit_int_eq_self) (auto intro: order_trans [OF _ uint_ge_0])
  then show ?thesis by (simp add: as_i64_def sint_uint)
qed

lemmas u64_no_wrap = unat_add_no_wrap unat_mult_no_wrap unat_usize_as_u64

end
