(* ===== verification/Hash_Map.thy ===== *)
theory Hash_Map
  imports Mtx_Prelude "HOL-Library.Multiset"
begin

text \<open>
  \<^verbatim>\<open>std::collections::HashMap\<close> and \<^verbatim>\<open>HashSet\<close> as the sources use them.

  A map is the list of its entries in iteration order, with distinct keys (\<open>hm_ok\<close>). Rust
  leaves the iteration order open, so nothing below depends on where \<open>hm_insert\<close> places a new
  key: theorems quantify over the entry list, hence over every order, the operations respect
  the equality of contents (\<open>hm_same\<close>), and the step relation of the server lets the
  order change at any time. A set is the list of its elements in iteration order.

  The locale \<open>hash_map\<close> is the contract clients rely on (what a lookup returns after an
  insertion or a removal, what iteration visits), with the facts that follow from it alone:
  collecting a sequence of pairs keeps the last value of every key, and an inserted map is
  unchanged elsewhere.
\<close>

section \<open>Maps\<close>

type_synonym ('k, 'v) hmap = "('k \<times> 'v) list"

definition hm_ok :: "('k, 'v) hmap \<Rightarrow> bool" where
  "hm_ok m \<longleftrightarrow> distinct (map fst m)"

definition hm_get :: "('k, 'v) hmap \<Rightarrow> 'k \<Rightarrow> 'v option" where
  "hm_get m k = map_of m k"

fun hm_insert :: "'k \<Rightarrow> 'v \<Rightarrow> ('k, 'v) hmap \<Rightarrow> ('k, 'v) hmap" where
  "hm_insert k v [] = [(k, v)]"
| "hm_insert k v ((k', v') # m) =
     (if k = k' then (k', v) # m else (k', v') # hm_insert k v m)"

definition hm_remove :: "'k \<Rightarrow> ('k, 'v) hmap \<Rightarrow> ('k, 'v) hmap" where
  "hm_remove k m = filter (\<lambda>e. fst e \<noteq> k) m"

definition hm_values :: "('k, 'v) hmap \<Rightarrow> 'v list" where
  "hm_values m = map snd m"

definition hm_map_values :: "('k \<Rightarrow> 'v \<Rightarrow> 'w) \<Rightarrow> ('k, 'v) hmap \<Rightarrow> ('k, 'w) hmap" where
  "hm_map_values f m = map (\<lambda>(k, v). (k, f k v)) m"

text \<open>\<^verbatim>\<open>iter.collect::<HashMap<_, _>>()\<close>: insert the pairs one after the other.\<close>

definition hm_collect :: "('k \<times> 'v) list \<Rightarrow> ('k, 'v) hmap" where
  "hm_collect kvs = fold (\<lambda>(k, v) m. hm_insert k v m) kvs []"

definition hm_same :: "('k, 'v) hmap \<Rightarrow> ('k, 'v) hmap \<Rightarrow> bool" where
  "hm_same m m' \<longleftrightarrow> mset m = mset m'"

section \<open>The contract\<close>

locale hash_map =
  fixes empty :: 'm
    and get :: "'m \<Rightarrow> 'k \<Rightarrow> 'v option"
    and insert :: "'k \<Rightarrow> 'v \<Rightarrow> 'm \<Rightarrow> 'm"
    and remove :: "'k \<Rightarrow> 'm \<Rightarrow> 'm"
    and iter :: "'m \<Rightarrow> ('k \<times> 'v) list"
    and ok :: "'m \<Rightarrow> bool"
  assumes ok_empty: "ok empty"
    and ok_insert: "ok m \<Longrightarrow> ok (insert k v m)"
    and ok_remove: "ok m \<Longrightarrow> ok (remove k m)"
    and get_empty: "get empty k = None"
    and get_insert: "ok m \<Longrightarrow> get (insert k v m) j = (if j = k then Some v else get m j)"
    and get_remove: "ok m \<Longrightarrow> get (remove k m) j = (if j = k then None else get m j)"
    and iter_iff: "ok m \<Longrightarrow> (k, v) \<in> set (iter m) \<longleftrightarrow> get m k = Some v"
    and iter_distinct: "ok m \<Longrightarrow> distinct (map fst (iter m))"
begin

lemma ok_fold: "ok m \<Longrightarrow> ok (fold (\<lambda>(k, v) m. insert k v m) kvs m)"
  by (induction kvs arbitrary: m) (auto simp: ok_insert)

lemma get_fold:
  "ok m \<Longrightarrow> get (fold (\<lambda>(k, v) m. insert k v m) kvs m) j =
     (case map_of (rev kvs) j of None \<Rightarrow> get m j | Some v \<Rightarrow> Some v)"
  by (induction kvs rule: rev_induct) (auto simp: ok_fold get_insert)

lemma get_collect:
  "get (fold (\<lambda>(k, v) m. insert k v m) kvs empty) j = map_of (rev kvs) j"
  by (simp add: get_fold ok_empty get_empty split: option.split)

lemma insert_iter:
  "ok m \<Longrightarrow> set (iter (insert k v m)) = {(k, v)} \<union> {e \<in> set (iter m). fst e \<noteq> k}"
  by (auto simp: iter_iff ok_insert get_insert split: if_splits)

lemma remove_iter: "ok m \<Longrightarrow> set (iter (remove k m)) = {e \<in> set (iter m). fst e \<noteq> k}"
  by (auto simp: iter_iff ok_remove get_remove split: if_splits)

end

section \<open>The entry list meets the contract\<close>

lemma hm_keys_insert: "fst ` set (hm_insert k v m) = insert k (fst ` set m)"
  by (induction k v m rule: hm_insert.induct) auto

lemma hm_get_insert [simp]: "hm_get (hm_insert k v m) j = (if j = k then Some v else hm_get m j)"
  by (induction m) (auto simp: hm_get_def)

lemma hm_get_remove [simp]: "hm_get (hm_remove k m) j = (if j = k then None else hm_get m j)"
  by (induction m) (auto simp: hm_get_def hm_remove_def)

lemma hm_get_Nil [simp]: "hm_get [] k = None"
  by (simp add: hm_get_def)

lemma hm_get_Cons: "hm_get ((k, v) # m) j = (if j = k then Some v else hm_get m j)"
  by (simp add: hm_get_def)

lemma hm_ok_Nil [simp]: "hm_ok []"
  by (simp add: hm_ok_def)

lemma hm_ok_Cons: "hm_ok ((k, v) # m) \<longleftrightarrow> k \<notin> fst ` set m \<and> hm_ok m"
  by (simp add: hm_ok_def)

lemma hm_ok_insert [simp]: "hm_ok m \<Longrightarrow> hm_ok (hm_insert k v m)"
  by (induction m) (auto simp: hm_ok_def hm_keys_insert)

lemma hm_ok_filter: "hm_ok m \<Longrightarrow> hm_ok (filter P m)"
  by (auto simp: hm_ok_def distinct_map inj_on_def)

lemma hm_ok_remove [simp]: "hm_ok m \<Longrightarrow> hm_ok (hm_remove k m)"
  by (simp add: hm_remove_def hm_ok_filter)

lemma hm_get_iff: "hm_ok m \<Longrightarrow> hm_get m k = Some v \<longleftrightarrow> (k, v) \<in> set m"
  by (simp add: hm_get_def hm_ok_def map_of_eq_Some_iff)

lemma hm_get_None_iff: "hm_get m k = None \<longleftrightarrow> k \<notin> fst ` set m"
  by (simp add: hm_get_def map_of_eq_None_iff)

lemma hm_get_filter:
  assumes "hm_ok m"
  shows "hm_get (filter P m) k =
     (case hm_get m k of Some v \<Rightarrow> if P (k, v) then Some v else None | None \<Rightarrow> None)"
proof (cases "hm_get (filter P m) k")
  case None
  with hm_get_iff [OF assms, of k] show ?thesis
    by (force simp: hm_get_None_iff split: option.split)
next
  case (Some v)
  with hm_get_iff [OF hm_ok_filter [OF assms], of P k v] hm_get_iff [OF assms, of k v] show ?thesis
    by simp
qed

interpretation hm: hash_map "[]" hm_get hm_insert hm_remove "\<lambda>m. m" hm_ok
  by unfold_locales (simp_all add: hm_get_iff, simp add: hm_ok_def)

lemma hm_ok_collect [simp]: "hm_ok (hm_collect kvs)"
  by (simp add: hm_collect_def hm.ok_fold)

lemma hm_get_collect: "hm_get (hm_collect kvs) k = map_of (rev kvs) k"
  by (simp add: hm_collect_def hm.get_collect)

lemma hm_get_collect_distinct:
  "distinct (map fst kvs) \<Longrightarrow> hm_get (hm_collect kvs) k = map_of kvs k"
  by (metis distinct_rev hm_get_collect map_of_inject_set rev_map set_rev)

lemma set_hm_collect: "set (hm_collect kvs) \<subseteq> set kvs"
  using hm_ok_collect [of kvs]
  by (auto simp: hm_get_iff [symmetric] hm_get_collect dest!: map_of_SomeD)

lemma hm_get_map_values [simp]:
  "hm_get (hm_map_values f m) k = map_option (f k) (hm_get m k)"
  by (induction m) (auto simp: hm_map_values_def hm_get_def)

lemma hm_ok_map_values [simp]: "hm_ok (hm_map_values f m) \<longleftrightarrow> hm_ok m"
  by (simp add: hm_map_values_def hm_ok_def comp_def case_prod_beta)

lemma set_hm_map_values:
  "set (hm_map_values f m) = (\<lambda>(k, v). (k, f k v)) ` set m"
  by (simp add: hm_map_values_def)

lemma set_hm_insert:
  "hm_ok m \<Longrightarrow> set (hm_insert k v m) = {(k, v)} \<union> {e \<in> set m. fst e \<noteq> k}"
  by (rule hm.insert_iter)

lemma set_hm_remove: "set (hm_remove k m) = {e \<in> set m. fst e \<noteq> k}"
  by (auto simp: hm_remove_def)

lemma hm_insert_neq_Nil [simp]: "hm_insert k v m \<noteq> []"
  by (induction k v m rule: hm_insert.induct) auto

lemma length_hm_insert: "length (hm_insert k v m) \<le> Suc (length m)"
  by (induction k v m rule: hm_insert.induct) auto

lemma hm_remove_absent: "hm_get m k = None \<Longrightarrow> hm_remove k m = m"
  by (auto simp: hm_remove_def hm_get_None_iff intro!: filter_True)

lemma hm_insert_same: "hm_get m k = Some v \<Longrightarrow> hm_insert k v m = m"
  by (induction m) (auto simp: hm_get_def split: if_splits)

lemma hm_insert_fresh: "hm_get m k = None \<Longrightarrow> hm_insert k v m = m @ [(k, v)]"
  by (induction m) (auto simp: hm_get_def split: if_splits)

section \<open>Iteration order is not observable through lookups and totals\<close>

lemma hm_same_ok: "hm_same m m' \<Longrightarrow> hm_ok m \<Longrightarrow> hm_ok m'"
  unfolding hm_same_def hm_ok_def
  by (metis mset_map mset_eq_imp_distinct_iff)

lemma hm_same_get: "hm_same m m' \<Longrightarrow> hm_ok m \<Longrightarrow> hm_get m k = hm_get m' k"
  by (metis hm_get_iff hm_same_def hm_same_ok not_None_eq option.exhaust set_mset_mset)

lemma hm_same_set: "hm_same m m' \<Longrightarrow> set m = set m'"
  by (metis hm_same_def set_mset_mset)

lemma hm_same_sum:
  fixes f :: "'k \<times> 'v \<Rightarrow> 'a :: comm_monoid_add"
  assumes "hm_same m m'"
  shows "sum_list (map f m) = sum_list (map f m')"
  using assms unfolding hm_same_def by (metis mset_map sum_mset_sum_list)

section \<open>Sets\<close>

text \<open>\<^verbatim>\<open>iter.collect::<HashSet<_>>()\<close>: duplicates go, membership stays.\<close>

definition hs_collect :: "'a list \<Rightarrow> 'a list" where
  "hs_collect xs = remdups xs"

definition hs_insert :: "'a \<Rightarrow> 'a list \<Rightarrow> 'a list" where
  "hs_insert x s = (if x \<in> set s then s else s @ [x])"

definition hs_eq :: "'a list \<Rightarrow> 'a list \<Rightarrow> bool" where
  "hs_eq s t \<longleftrightarrow> set s = set t"

lemma set_hs_collect [simp]: "set (hs_collect xs) = set xs"
  by (simp add: hs_collect_def)

lemma distinct_hs_collect [simp]: "distinct (hs_collect xs)"
  by (simp add: hs_collect_def)

lemma set_hs_insert [simp]: "set (hs_insert x s) = insert x (set s)"
  by (auto simp: hs_insert_def)

lemma distinct_hs_insert [simp]: "distinct s \<Longrightarrow> distinct (hs_insert x s)"
  by (auto simp: hs_insert_def)

lemma set_fold_hs_insert [simp]: "set (fold hs_insert xs s) = set xs \<union> set s"
  by (induction xs arbitrary: s) auto

lemma distinct_fold_hs_insert [simp]: "distinct s \<Longrightarrow> distinct (fold hs_insert xs s)"
  by (induction xs arbitrary: s) auto

end
