(* ===== verification/Server_Types.thy ===== *)
theory Server_Types
  imports Hash_Map
begin

text \<open>
  The data that crosses the server's modules: the constants of \<^verbatim>\<open>server/main.rs\<close>, the
  request mode of \<^verbatim>\<open>server/rpc_server.rs\<close>, the leader and session records of
  \<^verbatim>\<open>server/solana_service.rs\<close> and the messages of \<^verbatim>\<open>proto/mtransaction.proto\<close>.
  Rust scopes field names by struct; here every field carries a prefix for its struct.
\<close>

section \<open>Constants\<close>

definition N_COPIES :: nat where
  "N_COPIES = 2"

definition N_LEADERS :: nat where
  "N_LEADERS = 7"

definition N_CONSUMERS :: nat where
  "N_CONSUMERS = 3"

definition LEADER_REFRESH_SECONDS :: u64 where
  "LEADER_REFRESH_SECONDS = 3600"

definition NODES_REFRESH_SECONDS :: u64 where
  "NODES_REFRESH_SECONDS = 60"

definition GOSSIP_ENTRYPOINT :: string where
  "GOSSIP_ENTRYPOINT = ''entrypoint3.mainnet-beta.solana.com:8001''"

definition SLOTS_PER_EPOCH :: u64 where
  "SLOTS_PER_EPOCH = 432000"

lemmas server_consts [mtx_simps] =
  N_COPIES_def N_LEADERS_def N_CONSUMERS_def SLOTS_PER_EPOCH_def

section \<open>The wall clock\<close>

text \<open>
  \<open>now\<close> is the system time in nanoseconds since the Unix epoch; a clock set to before the epoch
  makes \<^verbatim>\<open>duration_since\<close> fail, which is unwrapped.
\<close>

definition time_ms :: "int \<Rightarrow> u64 outcome" where
  "time_ms now =
     (if now < 0 then Panic ''called `Result::unwrap()` on an `Err` value''
      else Done (word_of_int (now div 1000000)))"

lemma time_ms_Panic [simp]: "(\<exists>err. time_ms now = Panic err) \<longleftrightarrow> now < 0" "(\<exists>t. time_ms now = Done t) \<longleftrightarrow> \<not> now < 0"
  by (simp_all add: time_ms_def)

section \<open>Request mode\<close>

datatype mode = BLACKHOLE | FORWARD

fun mode_to_string :: "mode \<Rightarrow> string" where
  "mode_to_string BLACKHOLE = ''BLACKHOLE''"
| "mode_to_string FORWARD = ''FORWARD''"

section \<open>Leaders and sessions\<close>

record leader_info =
  li_identity :: string
  li_tpu :: string
  li_dc_full_city :: string
  li_is_jito :: bool

text \<open>
  A \<^verbatim>\<open>SignatureRecord\<close>. The signature itself is a value of the Solana SDK, so its type is
  a parameter; the tracing span carries no data the program reads back.
\<close>

record 's signature_record =
  sr_created_at :: instant
  sr_ctime :: u64
  sr_rtime :: u64
  sr_req_id :: nat
  sr_signature :: 's
  sr_mode :: mode
  sr_consumers :: "string list"
  sr_tpu_ips :: "string list"
  sr_partner_name :: string

section \<open>Messages between server and client\<close>

record pb_transaction =
  tr_data :: string
  tr_signature :: string
  tr_tpu :: "string list"

record pb_metrics =
  pm_tx_received :: u64
  pm_tx_forward_succeeded :: u64
  pm_tx_forward_failed :: u64
  pm_version :: string
  pm_quic_forwarder_permits_used_max :: u64
  pm_memory_physical :: u64

record pb_rtt =
  rt_ip :: string
  rt_rtt :: u64

text \<open>\<open>Ping\<close> and \<open>Pong\<close> messages hold one field, their id.\<close>

record request_envelope =
  rq_pong :: "string option"
  rq_metrics :: "pb_metrics option"
  rq_rtt :: "pb_rtt option"

record response_envelope =
  rs_transaction :: "pb_transaction option"
  rs_ping :: "string option"

definition build_tx_message_envelope ::
  "string \<Rightarrow> string \<Rightarrow> string list \<Rightarrow> response_envelope" where
  "build_tx_message_envelope signature data tpu =
     \<lparr>rs_transaction = Some \<lparr>tr_data = data, tr_signature = signature, tr_tpu = tpu\<rparr>,
      rs_ping = None\<rparr>"

definition build_ping_message_envelope :: "string \<Rightarrow> response_envelope" where
  "build_ping_message_envelope ping_id = \<lparr>rs_transaction = None, rs_ping = Some ping_id\<rparr>"

end
