(* ===== verification/Server_Metrics.thy ===== *)
theory Server_Metrics
  imports Server_Types Complex_Main
begin

text \<open>
  \<^verbatim>\<open>server/metrics.rs\<close>. The registry belongs to the prometheus crate, so the model
  records what the program asks of it: the sequence of operations on the named metrics.
  The one place that reads a metric back (\<^verbatim>\<open>getHealth\<close>) takes the reading function as a
  parameter; \<open>gauge_law\<close> is the documented behaviour of an integer gauge it relies on.
\<close>

section \<open>Metrics and the operations on them\<close>

datatype metric =
    CLIENT_TX_RECEIVED
  | CLIENT_TX_FORWARD_SUCCEEDED
  | CLIENT_TX_FORWARD_FAILED
  | CLIENT_QUIC_FORWARDER_PERMITS_USED_MAX
  | CLIENT_MEMORY_PHYSICAL
  | CLIENT_PING_RTT
  | CHAIN_TX_FINALIZED
  | CHAIN_TX_FINALIZED_BY_CONSUMER
  | CHAIN_TX_FINALIZED_BY_TPU_IP
  | CHAIN_TX_TIMEOUT
  | CHAIN_TX_TIMEOUT_BY_CONSUMER
  | CHAIN_TX_TIMEOUT_BY_TPU_IP
  | CHAIN_TX_EXECUTION_SUCCESS
  | CHAIN_TX_EXECUTION_ERROR
  | SERVER_RPC_TX_ACCEPTED
  | SERVER_RPC_TX_BYTES_IN
  | SERVER_TOTAL_CONNECTED_STAKE
  | SERVER_TOTAL_CONNECTED_TX_CONSUMERS

text \<open>
  \<open>Gauge_set\<close> and \<open>Gauge_inc\<close> act on the gauge with the given label values,
  \<open>Counter_inc_by\<close> on an unlabelled counter, \<open>Hist_observe\<close> adds a sample (in
  seconds; the rounding of floating-point division is not modelled) and
  \<open>Remove_labels\<close> drops the child metric with these label values.
\<close>

datatype metric_op =
    Gauge_set metric "string list" int
  | Gauge_inc metric "string list"
  | Counter_inc_by metric u64
  | Hist_observe metric "string list" real
  | Remove_labels metric "string list"

fun op_metric :: "metric_op \<Rightarrow> metric" where
  "op_metric (Gauge_set m _ _) = m"
| "op_metric (Gauge_inc m _) = m"
| "op_metric (Counter_inc_by m _) = m"
| "op_metric (Hist_observe m _ _) = m"
| "op_metric (Remove_labels m _) = m"

definition reset_client_metrics :: "string \<Rightarrow> metric_op list" where
  "reset_client_metrics ident =
     [Remove_labels CLIENT_PING_RTT [ident],
      Remove_labels SERVER_TOTAL_CONNECTED_STAKE [ident]]"

definition init_metrics :: "metric_op list" where
  "init_metrics = [Gauge_set SERVER_TOTAL_CONNECTED_TX_CONSUMERS [] 0]"

section \<open>The exporter\<close>

text \<open>
  \<open>gather\<close>, \<open>encode\<close> and \<open>from_utf8\<close> are the prometheus crate and the decoding of its buffer;
  the handler unwraps both results. The route answers \<^verbatim>\<open>GET /metrics\<close> and rejects every other
  request.
\<close>

datatype http_response = Http_ok string | Http_reject

definition metrics_handler ::
  "(metric_op list \<Rightarrow> 'families) \<Rightarrow> ('families \<Rightarrow> 'buf option) \<Rightarrow> ('buf \<Rightarrow> string option) \<Rightarrow> metric_op list \<Rightarrow>
   string outcome" where
  "metrics_handler gather encode from_utf8 ops =
     outcome_bind (unwrap (encode (gather ops))) (\<lambda>buffer. unwrap (from_utf8 buffer))"

definition metrics_route :: "string outcome \<Rightarrow> string \<Rightarrow> string list \<Rightarrow> http_response outcome" where
  "metrics_route handler meth path =
     (if path = [''metrics''] \<and> meth = ''GET'' then outcome_bind handler (\<lambda>body. Done (Http_ok body))
      else Done Http_reject)"

text \<open>
  The task of \<^verbatim>\<open>metrics::spawn\<close>: it initialises the gauge and then serves requests. \<open>bound\<close> tells
  whether the address could be bound; \<^verbatim>\<open>warp\<close> documents that \<^verbatim>\<open>run\<close> panics if not.
\<close>

definition metrics_spawn ::
  "bool \<Rightarrow> (metric_op list \<Rightarrow> 'families) \<Rightarrow> ('families \<Rightarrow> 'buf option) \<Rightarrow> ('buf \<Rightarrow> string option) \<Rightarrow> metric_op list \<Rightarrow>
   (metric_op list \<times> (metric_op list \<Rightarrow> string \<Rightarrow> string list \<Rightarrow> http_response outcome)) outcome" where
  "metrics_spawn bound gather encode from_utf8 ops =
     (let ops' = ops @ init_metrics
      in if bound then Done (ops', \<lambda>now. metrics_route (metrics_handler gather encode from_utf8 now))
         else Panic ''error binding to the metrics address'')"

section \<open>Reading a gauge back\<close>

definition gauge_law :: "(metric_op list \<Rightarrow> metric \<Rightarrow> string list \<Rightarrow> int) \<Rightarrow> bool" where
  "gauge_law get \<longleftrightarrow>
     (\<forall>ops m ls v. get (ops @ [Gauge_set m ls v]) m ls = v) \<and>
     (\<forall>ops op m ls. op_metric op \<noteq> m \<longrightarrow> get (ops @ [op]) m ls = get ops m ls)"

text \<open>A concrete reading function, used to show that the law can hold.\<close>

fun gauge_replay :: "metric_op list \<Rightarrow> metric \<Rightarrow> string list \<Rightarrow> int" where
  "gauge_replay [] m ls = 0"
| "gauge_replay (op # rev_ops) m ls =
     (case op of
        Gauge_set m' ls' v \<Rightarrow>
          if m' = m \<and> ls' = ls then v else gauge_replay rev_ops m ls
      | Gauge_inc m' ls' \<Rightarrow>
          (if m' = m \<and> ls' = ls then 1 else 0) + gauge_replay rev_ops m ls
      | Remove_labels m' ls' \<Rightarrow>
          if m' = m \<and> ls' = ls then 0 else gauge_replay rev_ops m ls
      | _ \<Rightarrow> gauge_replay rev_ops m ls)"

definition gauge_last :: "metric_op list \<Rightarrow> metric \<Rightarrow> string list \<Rightarrow> int" where
  "gauge_last ops = gauge_replay (rev ops)"

lemma gauge_law_gauge_last: "gauge_law gauge_last"
  unfolding gauge_law_def gauge_last_def
  by (auto split: metric_op.split)

lemma gauge_law_set:
  "gauge_law get \<Longrightarrow> get (ops @ [Gauge_set m ls v]) m ls = v"
  by (simp add: gauge_law_def)

lemma gauge_law_skip:
  assumes law: "gauge_law get" and other: "\<forall>op \<in> set ops'. op_metric op \<noteq> m"
  shows "get (ops @ ops') m ls = get ops m ls"
  using other
proof (induction ops' rule: rev_induct)
  case Nil
  then show ?case by simp
next
  case (snoc op ops')
  with law have "get ((ops @ ops') @ [op]) m ls = get (ops @ ops') m ls"
    by (simp add: gauge_law_def del: append_assoc)
  with snoc show ?case by simp
qed

lemma gauge_law_set_skip:
  "gauge_law get \<Longrightarrow> \<forall>op \<in> set ops'. op_metric op \<noteq> m \<Longrightarrow>
     get (ops @ Gauge_set m ls v # ops') m ls = v"
  using gauge_law_skip [of get ops' m "ops @ [Gauge_set m ls v]" ls]
  by (simp add: gauge_law_set)

end
