(* ===== verification/Solana_Service.thy ===== *)
theory Solana_Service
  imports Server_Metrics
begin

text \<open>
  \<^verbatim>\<open>server/solana_service.rs\<close>: what the server learns from the chain (stakes, epoch,
  leader schedule, node addresses, validator metadata), the stream of upcoming leaders, and
  the watcher that checks the fate of forwarded transactions.

  Responses of the Solana RPC client and of the two HTTP services are arguments, with
  \<open>Inl\<close> for an error; so are the constant \<^verbatim>\<open>LAMPORTS_PER_SOL\<close> and the rendering
  of socket addresses. A clock is the sequence of the instants successive reads of it return.
\<close>

section \<open>Stakes, epoch, schedule, addresses\<close>

record vote_account =
  va_node_pubkey :: string
  va_activated_stake :: u64

definition get_activated_stake ::
  "u64 \<Rightarrow> string + vote_account list \<Rightarrow> string + (string, u64) hmap" where
  "get_activated_stake lamports_per_sol resp =
     (case resp of
        Inl err \<Rightarrow> Inl err
      | Inr current \<Rightarrow>
          Inr (hm_collect
            (map (\<lambda>a. (va_node_pubkey a, va_activated_stake a div lamports_per_sol)) current)))"

definition get_current_epoch :: "string + u64 \<Rightarrow> string + u64" where
  "get_current_epoch resp = (case resp of Inl err \<Rightarrow> Inl err | Inr epoch \<Rightarrow> Inr epoch)"

definition get_leader_schedule ::
  "string + (string, nat list) hmap option \<Rightarrow> (string + (u64, string) hmap) outcome" where
  "get_leader_schedule resp =
     (case resp of
        Inl err \<Rightarrow> Done (Inl err)
      | Inr None \<Rightarrow> Panic ''No leader schedule!''
      | Inr (Some leader_schedule) \<Rightarrow>
          Done (Inr (hm_collect
            (concat (map (\<lambda>(ident, slots). map (\<lambda>slot. (usize_as_u64 slot, ident)) slots)
              leader_schedule)))))"

record 'a contact_node =
  cn_pubkey :: string
  cn_tpu_quic :: "'a option"

definition get_tpu_by_identity ::
  "('a \<Rightarrow> string) \<Rightarrow> string + 'a contact_node list \<Rightarrow> string + (string, string) hmap" where
  "get_tpu_by_identity addr_to_string resp =
     (case resp of
        Inl err \<Rightarrow> Inl err
      | Inr nodes \<Rightarrow>
          Inr (hm_collect
            (List.map_filter
              (\<lambda>node. map_option (\<lambda>tpu. (cn_pubkey node, addr_to_string tpu)) (cn_tpu_quic node))
              nodes)))"

section \<open>Validator metadata\<close>

record jito_validator_record =
  jv_vote_account :: string
  jv_running_jito :: bool

fun jito_loop :: "jito_validator_record list \<Rightarrow> string list \<Rightarrow> string list" where
  "jito_loop [] result = result"
| "jito_loop (entry # entries) result =
     (if jv_running_jito entry then jito_loop entries (hs_insert (jv_vote_account entry) result)
      else jito_loop entries result)"

definition fetch_jito_validators ::
  "string + jito_validator_record list \<Rightarrow> string + string list" where
  "fetch_jito_validators resp =
     (case resp of Inl err \<Rightarrow> Inl err | Inr validators \<Rightarrow> Inr (jito_loop validators []))"

record validator_record =
  vr_identity :: string
  vr_vote_account :: string
  vr_dc_full_city :: string

definition fetch_validator_records ::
  "string + validator_record list \<Rightarrow> string + (string, validator_record) hmap" where
  "fetch_validator_records resp =
     (case resp of
        Inl err \<Rightarrow> Inl err
      | Inr validators \<Rightarrow>
          Inr (fold (\<lambda>entry result. hm_insert (vr_identity entry) entry result) validators []))"

fun merge_loop ::
  "(string \<times> string) list \<Rightarrow> (string, validator_record) hmap \<Rightarrow> string list \<Rightarrow>
   (string, leader_info) hmap \<Rightarrow> (string, leader_info) hmap" where
  "merge_loop [] validator_records jito_identities result = result"
| "merge_loop ((ident, tpu) # tpus) validator_records jito_identities result =
     (case hm_get validator_records ident of
        None \<Rightarrow> merge_loop tpus validator_records jito_identities result
      | Some rec \<Rightarrow>
          (let is_jito = (vr_vote_account rec \<in> set jito_identities);
               info = \<lparr>li_identity = ident, li_tpu = tpu,
                       li_dc_full_city = vr_dc_full_city rec, li_is_jito = is_jito\<rparr>
           in merge_loop tpus validator_records jito_identities (hm_insert ident info result)))"

definition merge_validator_records ::
  "(string, string) hmap \<Rightarrow> (string, validator_record) hmap \<Rightarrow> string list \<Rightarrow>
   (string, leader_info) hmap" where
  "merge_validator_records tpus validator_records jito_identities =
     merge_loop tpus validator_records jito_identities []"

definition get_leader_info ::
  "('a \<Rightarrow> string) \<Rightarrow> string + 'a contact_node list \<Rightarrow> string + validator_record list \<Rightarrow>
   string + jito_validator_record list \<Rightarrow> string + (string, leader_info) hmap" where
  "get_leader_info addr_to_string nodes_resp validators_resp jito_resp =
     (case get_tpu_by_identity addr_to_string nodes_resp of
        Inl err \<Rightarrow> Inl (''Failed to update TPUs by identity: '' @ err)
      | Inr tpus \<Rightarrow>
         (case fetch_validator_records validators_resp of
            Inl err \<Rightarrow> Inl (''Failed to fetch validator records: '' @ err)
          | Inr validator_records \<Rightarrow>
             (case fetch_jito_validators jito_resp of
                Inl err \<Rightarrow> Inl (''Failed to fetch Jito validators: '' @ err)
              | Inr jito_identities \<Rightarrow>
                  Inr (merge_validator_records tpus validator_records jito_identities))))"

section \<open>The stream of upcoming leaders\<close>

record leaders_state =
  ls_schedule :: "(u64, string) hmap"
  ls_last_leaders :: "string list"

definition leaders_init :: leaders_state where
  "leaders_init = \<lparr>ls_schedule = [], ls_last_leaders = []\<rparr>"

definition current_leaders :: "(u64, string) hmap \<Rightarrow> u64 \<Rightarrow> string list" where
  "current_leaders schedule slot =
     hs_collect (List.map_filter
       (\<lambda>nth_leader. hm_get schedule (usize_as_u64 nth_leader * 4 + slot mod SLOTS_PER_EPOCH))
       [0..<N_LEADERS])"

datatype leaders_event =
    Refresh_hint "string + (string, nat list) hmap option"
  | Slot_info u64

text \<open>
  One round of the \<^verbatim>\<open>select!\<close> loop: \<open>Inl\<close> ends the task with an error (the
  \<^verbatim>\<open>?\<close> on a failed refresh), \<open>Inr\<close> gives the new state and the set sent to
  the subscriber, if one was sent.
\<close>

fun leaders_step ::
  "leaders_event \<Rightarrow> leaders_state \<Rightarrow> (string + leaders_state \<times> string list option) outcome" where
  "leaders_step (Refresh_hint resp) st =
     outcome_bind (get_leader_schedule resp) (\<lambda>r.
       Done (case r of
               Inl err \<Rightarrow> Inl err
             | Inr schedule \<Rightarrow> Inr (st\<lparr>ls_schedule := schedule\<rparr>, None)))"
| "leaders_step (Slot_info slot) st =
     (let cur = current_leaders (ls_schedule st) slot
      in Done (if \<not> hs_eq cur (ls_last_leaders st)
               then Inr (st\<lparr>ls_last_leaders := cur\<rparr>, Some cur)
               else Inr (st, None)))"

text \<open>
  The whole task on a sequence of events: it ends at once if the slot subscription fails, and at the
  first failed refresh. The result is the error it ended with, if it has, and the sets it sent.
\<close>

fun leaders_loop ::
  "leaders_event list \<Rightarrow> leaders_state \<Rightarrow> (string option \<times> string list list) outcome" where
  "leaders_loop [] st = Done (None, [])"
| "leaders_loop (ev # evs) st =
     outcome_bind (leaders_step ev st) (\<lambda>r.
       case r of
         Inl err \<Rightarrow> Done (Some err, [])
       | Inr (st', out) \<Rightarrow>
           outcome_bind (leaders_loop evs st') (\<lambda>(fin, sent).
             Done (fin, (case out of Some cur \<Rightarrow> cur # sent | None \<Rightarrow> sent))))"

definition leaders_stream ::
  "string + unit \<Rightarrow> leaders_event list \<Rightarrow> (string option \<times> string list list) outcome" where
  "leaders_stream subscribed evs =
     (case subscribed of Inl err \<Rightarrow> Done (Some err, []) | Inr _ \<Rightarrow> leaders_loop evs leaders_init)"

section \<open>The signature watcher\<close>

definition signature_check_after :: instant where
  "signature_check_after = 10 * 10 ^ 9"

definition max_bundle_size :: nat where
  "max_bundle_size = 250"

text \<open>
  The \<^verbatim>\<open>for\<close> loop that counts the records to bundle. Every record it looks at reads the
  clock once (\<^verbatim>\<open>elapsed()\<close>); \<open>c\<close> is the number of reads so far.
\<close>

fun count_due ::
  "(nat \<Rightarrow> instant) \<Rightarrow> nat \<Rightarrow> nat \<Rightarrow> 's signature_record list \<Rightarrow> nat \<times> nat" where
  "count_due clock c to_be_bundled_count [] = (to_be_bundled_count, c)"
| "count_due clock c to_be_bundled_count (rec # recs) =
     (if clock c - sr_created_at rec > signature_check_after
         \<and> to_be_bundled_count < max_bundle_size
      then count_due clock (Suc c) (Suc to_be_bundled_count) recs
      else (to_be_bundled_count, Suc c))"

lemma count_due_le: "fst (count_due clock c n q) \<le> n + length q"
proof (induction clock c n q rule: count_due.induct)
  case (1 clock c n)
  then show ?case by simp
next
  case (2 clock c n r q)
  then show ?case by auto
qed

text \<open>
  The inner \<^verbatim>\<open>loop\<close> of a tick: it spawns one \<^verbatim>\<open>signature_checker\<close> per bundle and
  returns the bundles, the remaining queue and the number of clock reads.
\<close>

function bundle_loop ::
  "(nat \<Rightarrow> instant) \<Rightarrow> nat \<Rightarrow> 's signature_record list \<Rightarrow>
   's signature_record list list \<times> 's signature_record list \<times> nat" where
  "bundle_loop clock c q =
     (let (n, c') = count_due clock c 0 q
      in if n = 0 then ([], q, c')
         else let (bundles, q', c'') = bundle_loop clock c' (drop n q)
              in (take n q # bundles, q', c''))"
  by pat_completeness auto
termination
proof (relation "measure (\<lambda>(clock, c, q). length q)", goal_cases)
  case 1
  show ?case by simp
next
  case (2 clock c q nc n c')
  then have "fst (count_due clock c 0 q) = n" by (metis fst_conv)
  then have "n \<le> length q" using count_due_le [of clock c 0 q] by simp
  with 2 show ?case by simp
qed

declare bundle_loop.simps [simp del]

datatype 's watcher_event = Bundle_signal "nat \<Rightarrow> instant" | Signature_arrived "'s signature_record" instant

fun watcher_step ::
  "'s watcher_event \<Rightarrow> 's signature_record list \<Rightarrow>
   's signature_record list list \<times> 's signature_record list" where
  "watcher_step (Bundle_signal clock) q =
     (let (bundles, q', _) = bundle_loop clock 0 q in (bundles, q'))"
| "watcher_step (Signature_arrived rec now) q = ([], q @ [rec\<lparr>sr_created_at := now\<rparr>])"

section \<open>Checking a bundle\<close>

record 'e transaction_status =
  ts_slot :: u64
  ts_confirmations :: "nat option"
  ts_status :: "'e option"
  ts_err :: "'e option"

definition format_status :: "('e \<Rightarrow> string) \<Rightarrow> (string \<Rightarrow> string) \<Rightarrow> 'e transaction_status \<Rightarrow> string" where
  "format_status err_to_string json_str status =
     (let slot = u64_to_string (ts_slot status);
          confirmations = (case ts_confirmations status of Some n \<Rightarrow> digits n | None \<Rightarrow> ''null'');
          st = (case ts_status status of None \<Rightarrow> ''ok'' | Some err \<Rightarrow> json_str (err_to_string err))
      in ''\"slot\":'' @ slot @ '',\"confirmations\":'' @ confirmations @
         '',\"status\":\"'' @ st @ ''\"'')"

definition record_labels :: "'s signature_record \<Rightarrow> string list" where
  "record_labels rec = [sr_partner_name rec, mode_to_string (sr_mode rec)]"

fun check_record :: "'s signature_record \<Rightarrow> 'e transaction_status option \<Rightarrow> metric_op list" where
  "check_record rec (Some known_status) =
     (case ts_err known_status of
        Some _ \<Rightarrow> [Gauge_inc CHAIN_TX_EXECUTION_SUCCESS (record_labels rec)]
      | None \<Rightarrow> [Gauge_inc CHAIN_TX_EXECUTION_SUCCESS (record_labels rec)]) @
     [Gauge_inc CHAIN_TX_FINALIZED (record_labels rec)] @
     map (\<lambda>consumer. Gauge_inc CHAIN_TX_FINALIZED_BY_CONSUMER [consumer]) (sr_consumers rec) @
     map (\<lambda>tpu_ip. Gauge_inc CHAIN_TX_FINALIZED_BY_TPU_IP [tpu_ip]) (sr_tpu_ips rec)"
| "check_record rec None =
     [Gauge_inc CHAIN_TX_TIMEOUT (record_labels rec)] @
     map (\<lambda>consumer. Gauge_inc CHAIN_TX_TIMEOUT_BY_CONSUMER [consumer]) (sr_consumers rec) @
     map (\<lambda>tpu_ip. Gauge_inc CHAIN_TX_TIMEOUT_BY_TPU_IP [tpu_ip]) (sr_tpu_ips rec)"

definition signature_checker ::
  "('s list \<Rightarrow> string + 'e transaction_status option list) \<Rightarrow> 's signature_record list \<Rightarrow>
   metric_op list" where
  "signature_checker get_signature_statuses bundle =
     (case get_signature_statuses (map sr_signature bundle) of
        Inr statuses \<Rightarrow> concat (map (\<lambda>(rec, st). check_record rec st) (zip bundle statuses))
      | Inl err \<Rightarrow> map (\<lambda>tx. Gauge_inc CHAIN_TX_TIMEOUT (record_labels tx)) bundle)"

text \<open>
  The watcher over time: \<open>t\<close> is the latest instant seen, \<open>arrived\<close> the signatures
  taken from the inbox, \<open>checked\<close> the records handed to a checker, both in order.
\<close>

inductive watcher_run ::
  "instant \<Rightarrow> 's signature_record list \<Rightarrow> 's list \<Rightarrow> 's signature_record list \<Rightarrow> bool" where
  watcher_start: "watcher_run t [] [] []"
| watcher_arrival: "watcher_run t q arrived checked \<Longrightarrow> t \<le> now \<Longrightarrow>
     watcher_step (Signature_arrived rec now) q = (bundles, q') \<Longrightarrow>
     watcher_run now q' (arrived @ [sr_signature rec]) checked"
| watcher_tick: "watcher_run t q arrived checked \<Longrightarrow> t \<le> clock 0 \<Longrightarrow> mono clock \<Longrightarrow>
     watcher_step (Bundle_signal clock) q = (bundles, q') \<Longrightarrow>
     watcher_run (clock (snd (snd (bundle_loop clock 0 q)))) q' arrived (checked @ concat bundles)"

section \<open>Facts about the chain data\<close>

lemma get_leader_schedule_entries:
  "get_leader_schedule (Inr (Some sched)) = Done (Inr m) \<Longrightarrow>
     hm_ok m \<and> (hm_get m s = Some v \<longrightarrow>
       (\<exists>slots slot. (v, slots) \<in> set sched \<and> slot \<in> set slots \<and> usize_as_u64 slot = s))"
  by (auto simp: get_leader_schedule_def hm_get_iff dest!: set_hm_collect [THEN subsetD]) blast

lemma merge_loop_ok:
  "hm_ok result \<Longrightarrow> hm_ok (merge_loop tpus vrs jito result)"
  by (induction tpus vrs jito result rule: merge_loop.induct)
     (auto simp: Let_def split: option.split)

lemma merge_loop_get:
  assumes "hm_ok tpus"
  shows "hm_get (merge_loop tpus vrs jito result) k =
     (case (hm_get tpus k, hm_get vrs k) of
        (Some tpu, Some rec) \<Rightarrow>
          Some \<lparr>li_identity = k, li_tpu = tpu, li_dc_full_city = vr_dc_full_city rec,
                li_is_jito = (vr_vote_account rec \<in> set jito)\<rparr>
      | _ \<Rightarrow> hm_get result k)"
  using assms
proof (induction tpus vrs jito result rule: merge_loop.induct)
  case (1 vrs jito result)
  then show ?case by simp
next
  case (2 ident tpu tpus vrs jito result)
  from "2.prems" have fresh: "hm_get tpus ident = None" and "hm_ok tpus"
    by (auto simp: hm_ok_Cons hm_get_None_iff)
  with "2.IH" show ?case
    by (auto simp: hm_get_Cons Let_def split: option.split)
qed

lemma jito_loop_set:
  "set (jito_loop entries result) =
     set result \<union> jv_vote_account ` {e \<in> set entries. jv_running_jito e}"
  by (induction entries result rule: jito_loop.induct) auto

lemma fetch_validator_records_get:
  assumes "fetch_validator_records (Inr vs) = Inr m"
  shows "hm_ok m" and "hm_get m k = map_of (rev (map (\<lambda>e. (vr_identity e, e)) vs)) k"
proof -
  have m: "m = hm_collect (map (\<lambda>e. (vr_identity e, e)) vs)"
    using assms by (simp add: fetch_validator_records_def hm_collect_def fold_map comp_def)
  show "hm_ok m" by (simp add: m)
  show "hm_get m k = map_of (rev (map (\<lambda>e. (vr_identity e, e)) vs)) k"
    by (simp add: m hm_get_collect)
qed

section \<open>Facts about the leader stream\<close>

lemma window_no_wrap:
  assumes "i < N_LEADERS"
  shows "unat (usize_as_u64 i * 4 + slot mod SLOTS_PER_EPOCH) =
     4 * i + unat (slot mod SLOTS_PER_EPOCH)"
proof -
  have i: "i < 7" using assms by (simp add: N_LEADERS_def)
  have r: "unat (slot mod SLOTS_PER_EPOCH) < 432000"
    by (simp add: SLOTS_PER_EPOCH_def unat_mod)
  have "unat (usize_as_u64 i * 4) = i * 4"
    using i by (subst unat_mult_no_wrap) (simp_all add: unat_usize_as_u64)
  with i r show ?thesis by (subst unat_add_no_wrap) simp_all
qed

lemma set_current_leaders:
  "set (current_leaders sched slot) =
     {l. \<exists>i < N_LEADERS.
        hm_get sched (usize_as_u64 i * 4 + slot mod SLOTS_PER_EPOCH) = Some l}"
  by (auto simp: current_leaders_def set_map_filter)

lemma distinct_current_leaders [simp]: "distinct (current_leaders sched slot)"
  by (simp add: current_leaders_def)

lemma length_current_leaders_le:
  "length (current_leaders sched slot) \<le>
     card {i. i < N_LEADERS \<and>
       hm_get sched (usize_as_u64 i * 4 + slot mod SLOTS_PER_EPOCH) \<noteq> None}"
    (is "_ \<le> card ?I")
proof -
  have fin: "finite ?I" by simp
  have "length (current_leaders sched slot) = card (set (current_leaders sched slot))"
    by (simp add: distinct_card)
  also have "set (current_leaders sched slot) \<subseteq>
      (\<lambda>i. the (hm_get sched (usize_as_u64 i * 4 + slot mod SLOTS_PER_EPOCH))) ` ?I"
    by (force simp: set_current_leaders)
  then have "card (set (current_leaders sched slot)) \<le> card ?I"
    using fin by (meson card_image_le card_mono finite_imageI order_trans)
  finally show ?thesis .
qed

lemma leaders_refresh_iff:
  "leaders_step (Refresh_hint resp) st = Done (Inr (st', out)) \<longleftrightarrow>
     (\<exists>sched. get_leader_schedule resp = Done (Inr sched) \<and>
        st' = st\<lparr>ls_schedule := sched\<rparr> \<and> out = None)"
proof (cases "get_leader_schedule resp")
  case (Done r)
  then show ?thesis by (cases r) auto
qed auto

lemma leaders_slot_iff:
  "leaders_step (Slot_info slot) st = Done (Inr (st', out)) \<longleftrightarrow>
     (let cur = current_leaders (ls_schedule st) slot
      in if hs_eq cur (ls_last_leaders st) then st' = st \<and> out = None
         else st' = st\<lparr>ls_last_leaders := cur\<rparr> \<and> out = Some cur)"
  by (auto simp: Let_def)

lemmas leaders_step_iff = leaders_refresh_iff leaders_slot_iff

text \<open>
  The sets of leaders a subscriber should see: one per slot, from the schedule of the latest refresh,
  up to the first refresh that fails.
\<close>

fun seen_leaders :: "leaders_event list \<Rightarrow> (u64, string) hmap \<Rightarrow> string set list" where
  "seen_leaders [] sched = []"
| "seen_leaders (Slot_info slot # evs) sched =
     {l. \<exists>i < N_LEADERS. hm_get sched (usize_as_u64 i * 4 + slot mod SLOTS_PER_EPOCH) = Some l} # seen_leaders evs sched"
| "seen_leaders (Refresh_hint resp # evs) sched =
     (case get_leader_schedule resp of Done (Inr sched') \<Rightarrow> seen_leaders evs sched' | _ \<Rightarrow> [])"

lemma remdups_adj_tl_Cons:
  "tl (remdups_adj (x # y # ys)) = (if x = y then tl (remdups_adj (y # ys)) else y # tl (remdups_adj (y # ys)))"
  by (cases ys) (auto simp: remdups_adj_Cons split: list.split)

lemma leaders_loop_seen:
  "leaders_loop evs st = Done (fin, sent) \<Longrightarrow>
     map set sent = tl (remdups_adj (set (ls_last_leaders st) # seen_leaders evs (ls_schedule st))) \<and>
     (\<forall>ls \<in> set sent. distinct ls) \<and> (fin = None \<longleftrightarrow> (\<forall>err. Refresh_hint (Inl err) \<notin> set evs))"
proof (induction evs arbitrary: st sent)
  case (Cons e evs)
  show ?case
  proof (cases e)
    case (Slot_info slot)
    let ?cur = "current_leaders (ls_schedule st) slot"
    show ?thesis
    proof (cases "set ?cur = set (ls_last_leaders st)")
      case True
      with Cons Slot_info show ?thesis
        by (auto simp: Let_def hs_eq_def remdups_adj_tl_Cons simp flip: set_current_leaders)
    next
      case False
      with Cons.prems Slot_info obtain rest where "sent = ?cur # rest"
        "leaders_loop evs (st\<lparr>ls_last_leaders := ?cur\<rparr>) = Done (fin, rest)"
        by (auto simp: Let_def hs_eq_def)
      with Cons.IH [of "st\<lparr>ls_last_leaders := ?cur\<rparr>" rest] False Slot_info show ?thesis
        by (simp add: remdups_adj_tl_Cons flip: set_current_leaders)
    qed
  next
    case (Refresh_hint resp)
    with Cons show ?thesis
      by (cases resp) (auto simp: get_leader_schedule_def split: option.splits)
  qed
qed simp

section \<open>Facts about the watcher\<close>

lemma count_due_prefix:
  assumes "count_due clock c n q = (m, c')"
  shows "n \<le> m \<and> m - n \<le> length q \<and> (n \<le> max_bundle_size \<longrightarrow> m \<le> max_bundle_size) \<and> c \<le> c' \<and>
     (\<forall>r \<in> set (take (m - n) q). \<exists>d. c \<le> d \<and> d < c' \<and>
        clock d - sr_created_at r > signature_check_after)"
  using assms
proof (induction clock c n q rule: count_due.induct)
  case (1 clock c n)
  then show ?case by simp
next
  case (2 clock c n r q)
  show ?case
  proof (cases "clock c - sr_created_at r > signature_check_after \<and> n < max_bundle_size")
    case False
    with "2.prems" show ?thesis by auto
  next
    case True
    with "2.prems" have rec: "count_due clock (Suc c) (Suc n) q = (m, c')" by simp
    note IH = "2.IH" [OF True rec]
    then obtain k where m: "m = n + Suc k" by (metis Suc_le_D add_Suc_right le_Suc_ex add_Suc)
    from IH True m show ?thesis
      by (auto intro: Suc_leD)
  qed
qed

lemma bundle_loop_partition:
  "bundle_loop clock c q = (bundles, q', c') \<Longrightarrow>
     concat bundles @ q' = q \<and>
     (\<forall>b \<in> set bundles. 0 < length b \<and> length b \<le> max_bundle_size)"
proof (induction clock c q arbitrary: bundles q' c' rule: bundle_loop.induct)
  case (1 clock c q)
  obtain n c1 where cd: "count_due clock c 0 q = (n, c1)" by fastforce
  show ?case
  proof (cases "n = 0")
    case True
    with "1.prems" cd show ?thesis by (simp add: bundle_loop.simps [of clock c q])
  next
    case False
    obtain bs q1 c2 where rec: "bundle_loop clock c1 (drop n q) = (bs, q1, c2)"
      by (metis prod_cases3)
    from count_due_prefix [OF cd] have n: "n \<le> length q" "n \<le> max_bundle_size" by auto
    from "1.prems" False cd rec have out: "bundles = take n q # bs" "q' = q1"
      by (simp_all add: bundle_loop.simps [of clock c q])
    from "1.IH" [OF cd [symmetric] refl False rec] out n False show ?thesis by auto
  qed
qed

lemma count_due_stop:
  assumes "count_due clock c n q = (m, c')" and "n \<le> m" and "m < max_bundle_size" and "m - n < length q"
  shows "c < c' \<and> clock (c' - 1) - sr_created_at (q ! (m - n)) \<le> signature_check_after"
  using assms
proof (induction clock c n q rule: count_due.induct)
  case (1 clock c n)
  then show ?case by simp
next
  case (2 clock c n r q)
  show ?case
  proof (cases "clock c - sr_created_at r > signature_check_after \<and> n < max_bundle_size")
    case False
    with "2.prems" show ?thesis by auto
  next
    case True
    with "2.prems" have rec: "count_due clock (Suc c) (Suc n) q = (m, c')" by simp
    with count_due_prefix [OF rec] have m: "Suc n \<le> m" by simp
    then obtain k where k: "m = n + Suc k" by (metis add_Suc add_Suc_right le_Suc_ex)
    from "2.IH" [OF True rec m] "2.prems"(3,4) show ?thesis by (auto simp: k)
  qed
qed

lemma bundle_loop_rest:
  "bundle_loop clock c q = (bundles, q', c') \<Longrightarrow>
     c \<le> c' \<and> (q' = [] \<or> c < c' \<and> clock (c' - 1) - sr_created_at (hd q') \<le> signature_check_after)"
proof (induction clock c q arbitrary: bundles q' c' rule: bundle_loop.induct)
  case (1 clock c q)
  obtain n c1 where cd: "count_due clock c 0 q = (n, c1)" by fastforce
  show ?case
  proof (cases "n = 0")
    case True
    with "1.prems" cd have "q' = q" "c' = c1" by (simp_all add: bundle_loop.simps [of clock c q])
    with count_due_stop [OF cd] count_due_prefix [OF cd] True show ?thesis
      by (cases q) (auto simp: max_bundle_size_def)
  next
    case False
    obtain bs q1 c2 where rec: "bundle_loop clock c1 (drop n q) = (bs, q1, c2)"
      by (metis prod_cases3)
    from "1.prems" False cd rec have out: "q' = q1" "c' = c2"
      by (simp_all add: bundle_loop.simps [of clock c q])
    from count_due_prefix [OF cd] have "c \<le> c1" by simp
    with "1.IH" [OF cd [symmetric] refl False rec] out show ?thesis by auto
  qed
qed

lemma bundle_loop_due:
  "bundle_loop clock c q = (bundles, q', c') \<Longrightarrow> r \<in> set (concat bundles) \<Longrightarrow>
     \<exists>d. c \<le> d \<and> d < c' \<and> clock d - sr_created_at r > signature_check_after"
proof (induction clock c q arbitrary: bundles q' c' rule: bundle_loop.induct)
  case (1 clock c q)
  obtain n c1 where cd: "count_due clock c 0 q = (n, c1)" by fastforce
  show ?case
  proof (cases "n = 0")
    case True
    with "1.prems" cd show ?thesis by (simp add: bundle_loop.simps [of clock c q])
  next
    case False
    obtain bs q1 c2 where rec: "bundle_loop clock c1 (drop n q) = (bs, q1, c2)"
      by (metis prod_cases3)
    from "1.prems"(1) False cd rec have out: "bundles = take n q # bs" "c' = c2"
      by (simp_all add: bundle_loop.simps [of clock c q])
    have le: "c \<le> c1" "c1 \<le> c2"
      using count_due_prefix [OF cd] bundle_loop_rest [OF rec] by auto
    from "1.prems"(2) out consider "r \<in> set (take n q)" | "r \<in> set (concat bs)" by auto
    then show ?thesis
    proof cases
      case 1
      with count_due_prefix [OF cd] le out show ?thesis by fastforce
    next
      case 2
      from "1.IH" [OF cd [symmetric] refl False rec 2] le(1) out show ?thesis
        by (meson order_trans)
    qed
  qed
qed

lemma bundle_loop_drains:
  assumes loop: "bundle_loop clock c q = (bundles, q', c')"
    and sorted: "sorted (map sr_created_at q)" and clock: "mono clock"
    and r: "r \<in> set q'"
  shows "clock c - sr_created_at r \<le> signature_check_after"
proof -
  from r have ne: "q' \<noteq> []" by auto
  from bundle_loop_partition [OF loop] sorted have "sorted (map sr_created_at q')"
    by (auto simp: sorted_append)
  with r ne have "sr_created_at (hd q') \<le> sr_created_at r"
    by (cases q') auto
  moreover from bundle_loop_rest [OF loop] ne
  have "c \<le> c' - 1" and "clock (c' - 1) - sr_created_at (hd q') \<le> signature_check_after"
    by auto
  moreover from \<open>c \<le> c' - 1\<close> clock have "clock c \<le> clock (c' - 1)" by (auto dest: monoD)
  ultimately show ?thesis by linarith
qed

lemma watcher_run_inv:
  "watcher_run t q arrived checked \<Longrightarrow>
     sorted (map sr_created_at q) \<and> (\<forall>r \<in> set q. sr_created_at r \<le> t) \<and>
     map sr_signature (checked @ q) = arrived"
proof (induction rule: watcher_run.induct)
  case (watcher_start t)
  then show ?case by simp
next
  case (watcher_arrival t q arrived checked now rec bundles q')
  then have "\<forall>r \<in> set q. sr_created_at r \<le> now" by (meson order_trans)
  with watcher_arrival show ?case by (auto simp: sorted_append)
next
  case (watcher_tick t q arrived checked clock bundles q')
  obtain bs q1 c where loop: "bundle_loop clock 0 q = (bs, q1, c)" by (metis prod_cases3)
  with watcher_tick.hyps have out: "bundles = bs" "q' = q1" by simp_all
  from bundle_loop_partition [OF loop] have q: "q = concat bs @ q1" by simp
  have "t \<le> clock c"
    using watcher_tick.hyps(2,3) by (meson le0 monoD order_trans)
  with watcher_tick.IH q out loop show ?case
    by (auto simp: sorted_append intro: order_trans)
qed

section \<open>Facts about the checker\<close>

text \<open>How often a metric is incremented, as a gauge or as a counter.\<close>

definition incs_of :: "metric \<Rightarrow> metric_op list \<Rightarrow> nat" where
  "incs_of m ops =
     length (filter (\<lambda>op. case op of Gauge_inc m' _ \<Rightarrow> m' = m | Counter_inc_by m' _ \<Rightarrow> m' = m | _ \<Rightarrow> False) ops)"

lemma incs_of_append [simp]: "incs_of m (a @ b) = incs_of m a + incs_of m b"
  by (simp add: incs_of_def)

lemma incs_of_Nil [simp]: "incs_of m [] = 0"
  by (simp add: incs_of_def)

lemma incs_of_Cons_inc [simp]:
  "incs_of m (Gauge_inc m' ls # ops) = (if m' = m then Suc (incs_of m ops) else incs_of m ops)"
  "incs_of m (Counter_inc_by m' n # ops) = (if m' = m then Suc (incs_of m ops) else incs_of m ops)"
  by (simp_all add: incs_of_def)

lemma incs_of_map_inc [simp]:
  "incs_of m (map (\<lambda>x. Gauge_inc m' (f x)) xs) = (if m' = m then length xs else 0)"
  by (cases "m' = m"; induction xs) simp_all

text \<open>How often the child of a gauge with given labels is incremented.\<close>

abbreviation gauge_incs :: "metric_op list \<Rightarrow> metric \<Rightarrow> string list \<Rightarrow> nat" where
  "gauge_incs ops m ls \<equiv> count_list ops (Gauge_inc m ls)"

lemma gauge_incs_map [simp]:
  "gauge_incs (map (\<lambda>x. Gauge_inc m' (f x)) xs) m ls = (if m' = m then count_list (map f xs) ls else 0)"
  by (induction xs) auto

lemma count_list_single [simp]: "count_list (map (\<lambda>x. [x]) xs) [y] = count_list xs y"
  by (induction xs) auto

lemma count_list_concat: "count_list (concat xss) y = (\<Sum>xs \<leftarrow> xss. count_list xs y)"
  by (induction xss) simp_all

lemma count_list_filter_map: "count_list (map f xs) y = length (filter (\<lambda>x. f x = y) xs)"
  by (induction xs) auto

lemma check_record_once:
  "incs_of CHAIN_TX_FINALIZED (check_record rec st) = (if st = None then 0 else 1)"
  "incs_of CHAIN_TX_TIMEOUT (check_record rec st) = (if st = None then 1 else 0)"
  "incs_of CHAIN_TX_EXECUTION_SUCCESS (check_record rec st) = (if st = None then 0 else 1)"
  "incs_of CHAIN_TX_EXECUTION_ERROR (check_record rec st) = 0"
  by (cases st; simp split: option.split)+

lemma incs_of_concat: "incs_of m (concat opss) = sum_list (map (incs_of m) opss)"
  by (induction opss) simp_all

lemma sum_zip_snd:
  "length xs = length ys \<Longrightarrow> (\<Sum>e \<leftarrow> zip xs ys. f (snd e)) = (\<Sum>y \<leftarrow> ys. f y)"
  by (induction xs ys rule: list_induct2) simp_all

lemma sum_known:
  "(\<Sum>st \<leftarrow> sts. if st = None then 0 else 1 :: nat) = length (filter (\<lambda>st. st \<noteq> None) sts)"
  "(\<Sum>st \<leftarrow> sts. if st = None then 1 else 0 :: nat) = length (filter (\<lambda>st. st = None) sts)"
  by (induction sts) auto

lemma signature_checker_incs:
  assumes "get (map sr_signature bundle) = Inr statuses" and "length statuses = length bundle"
  shows "incs_of CHAIN_TX_FINALIZED (signature_checker get bundle) =
           length (filter (\<lambda>st. st \<noteq> None) statuses)"
    and "incs_of CHAIN_TX_TIMEOUT (signature_checker get bundle) =
           length (filter (\<lambda>st. st = None) statuses)"
    and "incs_of CHAIN_TX_EXECUTION_SUCCESS (signature_checker get bundle) =
           length (filter (\<lambda>st. st \<noteq> None) statuses)"
    and "incs_of CHAIN_TX_EXECUTION_ERROR (signature_checker get bundle) = 0"
  using assms
  by (simp_all add: signature_checker_def incs_of_concat comp_def case_prod_beta check_record_once
        sum_zip_snd [of _ _ "\<lambda>st. if st = None then 0 else 1 :: nat"]
        sum_zip_snd [of _ _ "\<lambda>st. if st = None then 1 else 0 :: nat"] sum_known
        del: One_nat_def)

text \<open>The same by label: which child of which metric a record is counted in.\<close>

lemma sum_list_if: "(\<Sum>x \<leftarrow> xs. if P x then 1 else 0 :: nat) = length (filter P xs)"
  by (induction xs) simp_all

lemma length_filter_split:
  "length (filter P xs) = length (filter (\<lambda>x. Q x \<and> P x) xs) + length (filter (\<lambda>x. \<not> Q x \<and> P x) xs)"
  by (induction xs) auto

lemma check_record_incs:
  "gauge_incs (check_record rec st) CHAIN_TX_FINALIZED ls = (if st \<noteq> None \<and> record_labels rec = ls then 1 else 0)"
  "gauge_incs (check_record rec st) CHAIN_TX_TIMEOUT ls = (if st = None \<and> record_labels rec = ls then 1 else 0)"
  "gauge_incs (check_record rec st) CHAIN_TX_EXECUTION_SUCCESS ls = (if st \<noteq> None \<and> record_labels rec = ls then 1 else 0)"
  "gauge_incs (check_record rec st) CHAIN_TX_FINALIZED_BY_CONSUMER [x] = (if st = None then 0 else count_list (sr_consumers rec) x)"
  "gauge_incs (check_record rec st) CHAIN_TX_TIMEOUT_BY_CONSUMER [x] = (if st = None then count_list (sr_consumers rec) x else 0)"
  "gauge_incs (check_record rec st) CHAIN_TX_FINALIZED_BY_TPU_IP [x] = (if st = None then 0 else count_list (sr_tpu_ips rec) x)"
  "gauge_incs (check_record rec st) CHAIN_TX_TIMEOUT_BY_TPU_IP [x] = (if st = None then count_list (sr_tpu_ips rec) x else 0)"
  by (cases st; auto split: option.split)+

lemma checker_incs:
  "get (map sr_signature bundle) = Inr sts \<Longrightarrow>
     gauge_incs (signature_checker get bundle) m ls = (\<Sum>(rec, st) \<leftarrow> zip bundle sts. gauge_incs (check_record rec st) m ls)"
  by (simp add: signature_checker_def count_list_concat comp_def case_prod_unfold)

lemma check_record_metric_names:
  "op \<in> set (check_record rec st) \<Longrightarrow> op_metric op \<in> {CHAIN_TX_EXECUTION_SUCCESS,
     CHAIN_TX_FINALIZED, CHAIN_TX_FINALIZED_BY_CONSUMER, CHAIN_TX_FINALIZED_BY_TPU_IP,
     CHAIN_TX_TIMEOUT, CHAIN_TX_TIMEOUT_BY_CONSUMER, CHAIN_TX_TIMEOUT_BY_TPU_IP}"
  by (cases st) (auto split: option.splits)

lemma checker_metric_names:
  "op \<in> set (signature_checker get bundle) \<Longrightarrow> op_metric op \<in> {CHAIN_TX_EXECUTION_SUCCESS,
     CHAIN_TX_FINALIZED, CHAIN_TX_FINALIZED_BY_CONSUMER, CHAIN_TX_FINALIZED_BY_TPU_IP,
     CHAIN_TX_TIMEOUT, CHAIN_TX_TIMEOUT_BY_CONSUMER, CHAIN_TX_TIMEOUT_BY_TPU_IP}"
  by (auto simp: signature_checker_def split: sum.splits dest!: check_record_metric_names)

text \<open>
  A leader schedule only holds slots of its own epoch, and the stream looks up
  \<open>slot mod SLOTS_PER_EPOCH + 4 * k\<close> without wrapping into the next epoch, so with \<open>n\<close> slots
  left it can name at most \<open>n / 4\<close> leaders, rounded up.
\<close>

lemma length_current_leaders_epoch:
  assumes "\<forall>s l. hm_get sched s = Some l \<longrightarrow> unat s < unat SLOTS_PER_EPOCH"
  shows "length (current_leaders sched slot) \<le>
    (unat SLOTS_PER_EPOCH - unat (slot mod SLOTS_PER_EPOCH) + 3) div 4"
proof -
  let ?r = "unat (slot mod SLOTS_PER_EPOCH)"
  have "{i. i < N_LEADERS \<and>
      hm_get sched (usize_as_u64 i * 4 + slot mod SLOTS_PER_EPOCH) \<noteq> None}
    \<subseteq> {..< (unat SLOTS_PER_EPOCH - ?r + 3) div 4}" (is "?I \<subseteq> ?J")
  proof
    fix i assume "i \<in> ?I"
    with assms have "4 * i + ?r < unat SLOTS_PER_EPOCH"
      using window_no_wrap [of i slot] by auto
    then show "i \<in> ?J" by simp
  qed
  then have "card ?I \<le> (unat SLOTS_PER_EPOCH - ?r + 3) div 4"
    using card_mono [OF finite_lessThan] by fastforce
  with length_current_leaders_le show ?thesis by (rule order_trans)
qed

section \<open>Properties\<close>

text \<open>
  C35. The leader stream sends a set exactly when it changes. Whatever refreshes and slots arrive, the
  sets sent are the leader sets of all slots, each taken from the latest schedule, with consecutive
  repetitions (and empty sets at the beginning) left out: every change is sent, in order, and nothing
  else. The stream ends exactly when a refresh fails, and sends nothing for later slots; if the slot
  subscription fails it sends nothing at all.
\<close>

theorem leaders_stream_sends_changes:
  assumes "leaders_stream subscribed evs = Done (fin, sent)"
  shows "map set sent = (case subscribed of
       Inr _ \<Rightarrow> tl (remdups_adj ({} # seen_leaders evs []))
     | Inl err \<Rightarrow> []) \<and>
     (\<forall>ls \<in> set sent. distinct ls) \<and>
     (fin = None \<longleftrightarrow> subscribed = Inr () \<and> (\<forall>err. Refresh_hint (Inl err) \<notin> set evs))"
proof (cases subscribed)
  case (Inr u)
  with assms have "leaders_loop evs leaders_init = Done (fin, sent)" by (simp add: leaders_stream_def)
  from leaders_loop_seen [OF this] Inr show ?thesis by (simp add: leaders_init_def)
qed (use assms in \<open>auto simp: leaders_stream_def\<close>)

definition stream_demo :: "leaders_event list" where
  "stream_demo = [Slot_info 7, Refresh_hint (Inr (Some [(''a'', [0, 4]), (''b'', [8])])),
     Slot_info 432000, Slot_info 432000, Slot_info 432004, Slot_info 432008, Refresh_hint (Inl ''timeout''), Slot_info 432000]"

theorem leaders_stream_sends_changes_witness:
  "leaders_stream (Inr ()) stream_demo = Done (Some ''timeout'', [[''a'', ''b''], [''b'']]) \<and>
     tl (remdups_adj ({} # seen_leaders stream_demo [])) = [{''a'', ''b''}, {''b''}]"
proof -
  have run: "leaders_stream (Inr ()) stream_demo = Done (Some ''timeout'', [[''a'', ''b''], [''b'']])" by code_simp
  from leaders_stream_sends_changes [OF run] run show ?thesis by simp
qed

text \<open>
  C16. Every signature taken from the inbox is handed to a checker exactly once and in order: in
  every run the records already checked followed by the queue are the arrivals, the queue is
  sorted by arrival time, and every bundle holds between one and \<open>max_bundle_size\<close> records.
\<close>

theorem watcher_checks_once_in_order:
  assumes "watcher_run t q arrived checked"
  shows "map sr_signature (checked @ q) = arrived \<and> sorted (map sr_created_at q) \<and>
     (\<forall>clock. \<forall>b \<in> set (fst (watcher_step (Bundle_signal clock) q)).
        0 < length b \<and> length b \<le> max_bundle_size)"
proof -
  have "0 < length b \<and> length b \<le> max_bundle_size"
    if "b \<in> set (fst (watcher_step (Bundle_signal clock) q))" for clock b
    using that bundle_loop_partition [of clock 0 q]
    by (cases "bundle_loop clock 0 q") auto
  with watcher_run_inv [OF assms] show ?thesis by simp
qed

text \<open>Two signatures arrive; a tick eleven seconds after the first arrival finds only that one due.\<close>

definition record_demo :: "string \<Rightarrow> string signature_record" where
  "record_demo sg = \<lparr>sr_created_at = 0, sr_ctime = 1, sr_rtime = 2, sr_req_id = 0, sr_signature = sg,
     sr_mode = FORWARD, sr_consumers = [''v''], sr_tpu_ips = [''1.2.3.4''], sr_partner_name = ''p''\<rparr>"

theorem watcher_checks_once_in_order_witness:
  "\<exists>t q checked. watcher_run t q [''s'', ''t''] checked \<and> map sr_signature checked = [''s''] \<and> map sr_signature q = [''t''] \<and>
     map sr_signature (checked @ q) = [''s'', ''t'']"
proof -
  let ?s = "(record_demo ''s'')\<lparr>sr_created_at := 7\<rparr>" and ?t = "(record_demo ''t'')\<lparr>sr_created_at := 9000000000\<rparr>"
  let ?clock = "\<lambda>d. 11000000007 + d :: nat"
  have "watcher_run 7 [?s] [''s''] []"
    using watcher_arrival [OF watcher_start [of 5], of 7 "record_demo ''s''"] by (simp add: record_demo_def)
  from watcher_arrival [OF this, of 9000000000 "record_demo ''t''"]
  have two: "watcher_run 9000000000 [?s, ?t] [''s'', ''t''] []" by (simp add: record_demo_def)
  have "watcher_step (Bundle_signal ?clock) [?s, ?t] = ([[?s]], [?t])"
    by (simp add: bundle_loop.simps signature_check_after_def max_bundle_size_def record_demo_def)
  from watcher_tick [OF two _ _ this] obtain t where run: "watcher_run t [?t] [''s'', ''t''] [?s]"
    by (auto simp: mono_def)
  from watcher_checks_once_in_order [OF run] run show ?thesis
    by (intro exI [of _ t] exI [of _ "[?t]"] exI [of _ "[?s]"]) (simp add: record_demo_def)
qed

text \<open>
  C24. A tick of the watcher drains exactly the records that are due. With a queue in arrival
  order and a clock that does not run backwards, no record that was older than
  \<open>signature_check_after\<close> when the tick began stays in the queue, and every bundled record
  was that old at some clock read of the tick. (The loop itself always ends.)
\<close>

theorem watcher_tick_drains_due:
  assumes "sorted (map sr_created_at q)" and "mono clock"
    and "watcher_step (Bundle_signal clock) q = (bundles, q')"
  shows "concat bundles @ q' = q \<and>
     (\<forall>r \<in> set q'. clock 0 - sr_created_at r \<le> signature_check_after) \<and>
     (\<forall>r \<in> set (concat bundles). \<exists>d. clock d - sr_created_at r > signature_check_after)"
proof -
  obtain c where loop: "bundle_loop clock 0 q = (bundles, q', c)"
    using assms(3) by (auto split: prod.splits)
  show ?thesis
    using bundle_loop_partition [OF loop] bundle_loop_drains [OF loop assms(1,2)]
      bundle_loop_due [OF loop] by blast
qed

theorem watcher_tick_drains_due_witness:
  "watcher_step (Bundle_signal (\<lambda>d. 20000000000 + d))
     [\<lparr>sr_created_at = 7, sr_ctime = 1, sr_rtime = 2, sr_req_id = 0, sr_signature = ''s'',
       sr_mode = FORWARD, sr_consumers = [], sr_tpu_ips = [], sr_partner_name = ''p''\<rparr>,
      \<lparr>sr_created_at = 19999999999, sr_ctime = 1, sr_rtime = 2, sr_req_id = 1, sr_signature = ''t'',
       sr_mode = FORWARD, sr_consumers = [], sr_tpu_ips = [], sr_partner_name = ''p''\<rparr>] =
     ([[\<lparr>sr_created_at = 7, sr_ctime = 1, sr_rtime = 2, sr_req_id = 0, sr_signature = ''s'',
         sr_mode = FORWARD, sr_consumers = [], sr_tpu_ips = [], sr_partner_name = ''p''\<rparr>]],
      [\<lparr>sr_created_at = 19999999999, sr_ctime = 1, sr_rtime = 2, sr_req_id = 1, sr_signature = ''t'',
         sr_mode = FORWARD, sr_consumers = [], sr_tpu_ips = [], sr_partner_name = ''p''\<rparr>]) \<and>
   (20000000000 :: nat) - 19999999999 \<le> signature_check_after"
proof -
  let ?r = "\<lparr>sr_created_at = 7, sr_ctime = 1, sr_rtime = 2, sr_req_id = 0, sr_signature = ''s'',
       sr_mode = FORWARD, sr_consumers = [], sr_tpu_ips = [], sr_partner_name = ''p''\<rparr>"
  let ?s = "\<lparr>sr_created_at = 19999999999, sr_ctime = 1, sr_rtime = 2, sr_req_id = 1, sr_signature = ''t'',
       sr_mode = FORWARD, sr_consumers = [], sr_tpu_ips = [], sr_partner_name = ''p''\<rparr>"
  let ?clock = "\<lambda>d. 20000000000 + d :: nat"
  have step: "watcher_step (Bundle_signal ?clock) [?r, ?s] = ([[?r]], [?s])"
    by (simp add: bundle_loop.simps signature_check_after_def max_bundle_size_def)
  moreover have "sorted (map sr_created_at [?r, ?s])" and "mono ?clock"
    by (simp_all add: monoI)
  from watcher_tick_drains_due [OF this step] have "?clock 0 - sr_created_at ?s \<le> signature_check_after"
    by simp
  ultimately show ?thesis by simp
qed

text \<open>
  C25. The checker accounts for every transaction of its bundle once, and in the right place. When the
  RPC node answers, the transactions with a status are counted as finalized and those without as
  timed out, each under its own partner and mode, once for each of its consumers and once for each
  of its TPU addresses. When the request fails, every transaction is counted as timed out under its
  partner and mode and in no other metric. With one status per signature the two counts add up to
  the size of the bundle.
\<close>

theorem signature_checker_counts_each_once:
  assumes "\<forall>sts. get (map sr_signature bundle) = Inr sts \<longrightarrow> length sts = length bundle"
  shows "incs_of CHAIN_TX_FINALIZED (signature_checker get bundle) + incs_of CHAIN_TX_TIMEOUT (signature_checker get bundle) =
       length bundle \<and>
     (case get (map sr_signature bundle) of
        Inr sts \<Rightarrow>
          (\<forall>partner mode. gauge_incs (signature_checker get bundle) CHAIN_TX_FINALIZED [partner, mode] =
             length (filter (\<lambda>(rec, st). st \<noteq> None \<and> [sr_partner_name rec, mode_to_string (sr_mode rec)] = [partner, mode]) (zip bundle sts)) \<and>
           gauge_incs (signature_checker get bundle) CHAIN_TX_TIMEOUT [partner, mode] =
             length (filter (\<lambda>(rec, st). st = None \<and> [sr_partner_name rec, mode_to_string (sr_mode rec)] = [partner, mode]) (zip bundle sts))) \<and>
          (\<forall>x. gauge_incs (signature_checker get bundle) CHAIN_TX_FINALIZED_BY_CONSUMER [x] =
             (\<Sum>(rec, st) \<leftarrow> zip bundle sts. if st = None then 0 else count_list (sr_consumers rec) x) \<and>
           gauge_incs (signature_checker get bundle) CHAIN_TX_TIMEOUT_BY_CONSUMER [x] =
             (\<Sum>(rec, st) \<leftarrow> zip bundle sts. if st = None then count_list (sr_consumers rec) x else 0) \<and>
           gauge_incs (signature_checker get bundle) CHAIN_TX_FINALIZED_BY_TPU_IP [x] =
             (\<Sum>(rec, st) \<leftarrow> zip bundle sts. if st = None then 0 else count_list (sr_tpu_ips rec) x) \<and>
           gauge_incs (signature_checker get bundle) CHAIN_TX_TIMEOUT_BY_TPU_IP [x] =
             (\<Sum>(rec, st) \<leftarrow> zip bundle sts. if st = None then count_list (sr_tpu_ips rec) x else 0))
      | Inl err \<Rightarrow>
          signature_checker get bundle =
            map (\<lambda>rec. Gauge_inc CHAIN_TX_TIMEOUT [sr_partner_name rec, mode_to_string (sr_mode rec)]) bundle)"
proof (cases "get (map sr_signature bundle)")
  case (Inl err)
  then show ?thesis by (simp add: signature_checker_def record_labels_def)
next
  case (Inr sts)
  with assms have len: "length sts = length bundle" by simp
  have "incs_of CHAIN_TX_FINALIZED (signature_checker get bundle) + incs_of CHAIN_TX_TIMEOUT (signature_checker get bundle) = length bundle"
    using signature_checker_incs [of get, OF Inr len] len sum_length_filter_compl [of "\<lambda>st. st \<noteq> None" sts] by simp
  then show ?thesis
    using Inr by (simp add: checker_incs [of get, OF Inr] check_record_incs case_prod_unfold sum_list_if record_labels_def cong: conj_cong)
qed

definition status_demo :: "string transaction_status" where
  "status_demo = \<lparr>ts_slot = 5, ts_confirmations = None, ts_status = Some ''e'', ts_err = Some ''e''\<rparr>"

theorem signature_checker_counts_each_once_witness:
  "gauge_incs (signature_checker (\<lambda>_. Inr [Some status_demo, None]) [record_demo ''s'', record_demo ''t'']) CHAIN_TX_FINALIZED [''p'', ''FORWARD''] = 1 \<and>
   gauge_incs (signature_checker (\<lambda>_. Inr [Some status_demo, None]) [record_demo ''s'', record_demo ''t'']) CHAIN_TX_TIMEOUT [''p'', ''FORWARD''] = 1 \<and>
   gauge_incs (signature_checker (\<lambda>_. Inr [Some status_demo, None]) [record_demo ''s'', record_demo ''t'']) CHAIN_TX_TIMEOUT_BY_CONSUMER [''v''] = 1"
proof -
  let ?b = "[record_demo ''s'', record_demo ''t'']" and ?sts = "[Some status_demo, None]"
  have "\<forall>sts. (\<lambda>_. Inr ?sts) (map sr_signature ?b) = Inr sts \<longrightarrow> length sts = length ?b" by simp
  from signature_checker_counts_each_once [of "\<lambda>_. Inr ?sts", OF this] show ?thesis
    by (simp add: record_demo_def)
qed

text \<open>
  C39. A transaction that failed on chain is counted as an execution success. For each partner and
  mode the success metric grows by the transactions that failed as well as by those that did not, so
  it counts all that have a status; and no operation of the checker, of any kind, touches the error
  metric.
\<close>

theorem failed_transactions_count_as_success:
  assumes "get (map sr_signature bundle) = Inr sts"
  shows "gauge_incs (signature_checker get bundle) CHAIN_TX_EXECUTION_SUCCESS [partner, mode] =
       length (filter (\<lambda>(rec, st). (\<exists>k. st = Some k \<and> ts_err k \<noteq> None) \<and>
          [sr_partner_name rec, mode_to_string (sr_mode rec)] = [partner, mode]) (zip bundle sts)) +
       length (filter (\<lambda>(rec, st). (\<exists>k. st = Some k \<and> ts_err k = None) \<and>
          [sr_partner_name rec, mode_to_string (sr_mode rec)] = [partner, mode]) (zip bundle sts)) \<and>
     (\<forall>op \<in> set (signature_checker get bundle). op_metric op \<noteq> CHAIN_TX_EXECUTION_ERROR)"
proof
  let ?lab = "\<lambda>rec. [sr_partner_name rec, mode_to_string (sr_mode rec)] = [partner, mode]"
  have "gauge_incs (signature_checker get bundle) CHAIN_TX_EXECUTION_SUCCESS [partner, mode] =
      length (filter (\<lambda>(rec, st). st \<noteq> None \<and> ?lab rec) (zip bundle sts))"
    by (simp add: checker_incs [of get, OF assms] check_record_incs case_prod_unfold sum_list_if record_labels_def cong: conj_cong)
  also have "\<dots> = length (filter (\<lambda>(rec, st). (\<exists>k. st = Some k \<and> ts_err k \<noteq> None) \<and> ?lab rec) (zip bundle sts)) +
      length (filter (\<lambda>(rec, st). (\<exists>k. st = Some k \<and> ts_err k = None) \<and> ?lab rec) (zip bundle sts))"
    by (subst length_filter_split [where Q = "\<lambda>(rec, st). \<exists>k. st = Some k \<and> ts_err k \<noteq> None"])
       (intro arg_cong2 [where f = plus] arg_cong [where f = length] filter_cong; auto)
  finally show "gauge_incs (signature_checker get bundle) CHAIN_TX_EXECUTION_SUCCESS [partner, mode] = \<dots>" .
  show "\<forall>op \<in> set (signature_checker get bundle). op_metric op \<noteq> CHAIN_TX_EXECUTION_ERROR"
    using checker_metric_names by fastforce
qed

theorem failed_transactions_count_as_success_witness:
  "gauge_incs (signature_checker (\<lambda>_. Inr [Some status_demo]) [record_demo ''s'']) CHAIN_TX_EXECUTION_SUCCESS [''p'', ''FORWARD''] = 1 \<and>
   CHAIN_TX_EXECUTION_ERROR \<notin> op_metric ` set (signature_checker (\<lambda>_. Inr [Some status_demo]) [record_demo ''s''])"
proof -
  let ?get = "\<lambda>_. Inr [Some status_demo] :: string + _"
  have "?get (map sr_signature [record_demo ''s'']) = Inr [Some status_demo]" by simp
  from failed_transactions_count_as_success [of ?get "[record_demo ''s'']", OF this] show ?thesis
    by (fastforce simp: record_demo_def status_demo_def)
qed

text \<open>
  The validator records are joined by identity: a node is in the result exactly when it has
  both a TPU address and a validator record, and the entry combines them (the address from the
  node, the city from the record, and whether the record's vote account runs Jito).
\<close>

theorem merge_validator_records_joins:
  assumes "hm_ok tpus"
  shows "hm_ok (merge_validator_records tpus vrs jito) \<and>
     hm_get (merge_validator_records tpus vrs jito) k =
       (case (hm_get tpus k, hm_get vrs k) of
          (Some tpu, Some rec) \<Rightarrow>
            Some \<lparr>li_identity = k, li_tpu = tpu, li_dc_full_city = vr_dc_full_city rec,
                  li_is_jito = (vr_vote_account rec \<in> set jito)\<rparr>
        | _ \<Rightarrow> None)"
  unfolding merge_validator_records_def
  using merge_loop_get [OF assms, of vrs jito "[]" k]
  by (simp add: merge_loop_ok split: option.split)

theorem merge_validator_records_joins_witness:
  "hm_get (merge_validator_records [(''n'', ''1.2.3.4:8009'')]
      [(''n'', \<lparr>vr_identity = ''n'', vr_vote_account = ''v'', vr_dc_full_city = ''c''\<rparr>)] [''v'']) ''n''
   = Some \<lparr>li_identity = ''n'', li_tpu = ''1.2.3.4:8009'', li_dc_full_city = ''c'', li_is_jito = True\<rparr>"
  using merge_validator_records_joins [of "[(''n'', ''1.2.3.4:8009'')]"
      "[(''n'', \<lparr>vr_identity = ''n'', vr_vote_account = ''v'', vr_dc_full_city = ''c''\<rparr>)]" "[''v'']" "''n''"]
  by (simp add: hm_ok_def hm_get_def)

end
