(* ===== verification/Balancer.thy ===== *)
theory Balancer
  imports Solana_Service
begin

text \<open>
  \<^verbatim>\<open>server/balancer.rs\<close>: the registry of connected clients (consumers) with their
  stakes, the choice of consumers for a transaction, and its publication.

  The state is the record \<open>balancer\<close>. Operations pass it explicitly; what they do beside it is
  a list of effects: metric updates, and the unit message that dropping a consumer sends on its
  oneshot channel (\<^verbatim>\<open>impl Drop for TxConsumer\<close>). Code of other crates is a parameter:

  \<^item> \<open>gen_range g n\<close> draws from \<open>0..n\<close> and returns the next generator state
    (\<^verbatim>\<open>rand\<close>); \<open>gen_range_ok\<close> is the documented range;
  \<^item> \<open>send ch msg w\<close> is \<^verbatim>\<open>mpsc::Sender::send(..).await\<close> on the runtime state
    \<open>w\<close>, with \<open>True\<close> for \<^verbatim>\<open>Ok\<close>;
  \<^item> the parsing of public keys and the gossip contact table in \<open>lookup_info\<close>.

  Operations that hold the write lock are atomic. \<^verbatim>\<open>publish\<close> runs under the read lock and
  only sets the atomic \<^verbatim>\<open>do_unsubscribe\<close> flags.
\<close>

section \<open>State\<close>

record tx_consumer =
  tc_identity :: string
  tc_stake :: u64
  tc_tx :: chan
  tc_token :: string
  tc_tx_unsubscribe :: "oneshot option"
  tc_do_unsubscribe :: bool

record rtt_value =
  rv_rtt :: u64
  rv_n :: u64

record balancer =
  tx_consumers :: "(string, tx_consumer) hmap"
  stake_weights :: "(string, u64) hmap"
  total_connected_stake :: u64
  leaders :: "(string, leader_info) hmap"
  leader_tpus :: "leader_info list"
  rtt_values :: "(string, (string, rtt_value) hmap) hmap"
  watcher_inbox :: chan

datatype effect = Metric metric_op | Unsubscribed oneshot

definition drop_consumer :: "tx_consumer \<Rightarrow> effect list" where
  "drop_consumer c = (case tc_tx_unsubscribe c of Some tx \<Rightarrow> [Unsubscribed tx] | None \<Rightarrow> [])"

definition balancer_new :: "chan \<Rightarrow> balancer" where
  "balancer_new inbox =
     \<lparr>tx_consumers = [], stake_weights = [], total_connected_stake = 0, leaders = [],
      leader_tpus = [], rtt_values = [], watcher_inbox = inbox\<rparr>"

section \<open>The registry of consumers\<close>

definition recalc_total_connected_stake :: "balancer \<Rightarrow> balancer \<times> effect list" where
  "recalc_total_connected_stake b =
     (b\<lparr>total_connected_stake := sum_list (map (\<lambda>(_, c). tc_stake c) (tx_consumers b))\<rparr>,
      Metric (Gauge_set SERVER_TOTAL_CONNECTED_TX_CONSUMERS []
        (as_i64 (usize_as_u64 (length (tx_consumers b))))) #
      map (\<lambda>c. Metric (Gauge_set SERVER_TOTAL_CONNECTED_STAKE [tc_identity c] (as_i64 (tc_stake c))))
        (hm_values (tx_consumers b)))"

definition stake_of :: "(string, u64) hmap \<Rightarrow> string \<Rightarrow> u64" where
  "stake_of weights ident = (case hm_get weights ident of Some w \<Rightarrow> w | None \<Rightarrow> 1)"

text \<open>
  \<open>tx\<close> and \<open>tx_unsubscribe\<close> are the ends of the two channels \<^verbatim>\<open>subscribe\<close> opens.
  Replacing an entry drops the consumer it held.
\<close>

definition subscribe ::
  "string \<Rightarrow> string \<Rightarrow> chan \<Rightarrow> oneshot \<Rightarrow> balancer \<Rightarrow> balancer \<times> effect list" where
  "subscribe ident tok tx tx_unsubscribe b =
     (let consumer = \<lparr>tc_identity = ident, tc_stake = stake_of (stake_weights b) ident,
                      tc_tx = tx, tc_token = tok, tc_tx_unsubscribe = Some tx_unsubscribe,
                      tc_do_unsubscribe = False\<rparr>;
          dropped = (case hm_get (tx_consumers b) ident of
                       Some old \<Rightarrow> drop_consumer old | None \<Rightarrow> []);
          (b', effs) = recalc_total_connected_stake
            (b\<lparr>tx_consumers := hm_insert ident consumer (tx_consumers b)\<rparr>)
      in (b', dropped @ effs))"

definition unsubscribe :: "string \<Rightarrow> string \<Rightarrow> balancer \<Rightarrow> balancer \<times> effect list" where
  "unsubscribe ident tok b =
     (case hm_get (tx_consumers b) ident of
        Some consumer \<Rightarrow>
          if tc_token consumer = tok
          then let (b', effs) = recalc_total_connected_stake
                     (b\<lparr>tx_consumers := hm_remove ident (tx_consumers b)\<rparr>)
               in (b', drop_consumer consumer @ effs)
          else (b, [])
      | None \<Rightarrow> (b, []))"

fun unsubscribe_all :: "(string \<times> string) list \<Rightarrow> balancer \<Rightarrow> balancer \<times> effect list" where
  "unsubscribe_all [] b = (b, [])"
| "unsubscribe_all ((ident, tok) # entries) b =
     (let (b', effs) = unsubscribe ident tok b;
          (b'', effs') = unsubscribe_all entries b'
      in (b'', effs @ effs'))"

definition flush_unsubscribes :: "balancer \<Rightarrow> balancer \<times> effect list" where
  "flush_unsubscribes b =
     (let identities = map (\<lambda>c. (tc_identity c, tc_token c))
            (filter tc_do_unsubscribe (hm_values (tx_consumers b)))
      in unsubscribe_all identities b)"

definition update_stake_weights :: "(string, u64) hmap \<Rightarrow> balancer \<Rightarrow> balancer" where
  "update_stake_weights weights b =
     b\<lparr>stake_weights := weights,
       tx_consumers := hm_map_values (\<lambda>ident c. c\<lparr>tc_stake := stake_of weights ident\<rparr>)
         (tx_consumers b)\<rparr>"

definition set_leaders ::
  "leader_info list \<Rightarrow> (string, leader_info) hmap \<Rightarrow> balancer \<Rightarrow> balancer" where
  "set_leaders tpus ls b = b\<lparr>leader_tpus := tpus, leaders := ls\<rparr>"

definition update_rtt :: "string \<Rightarrow> pb_rtt \<Rightarrow> balancer \<Rightarrow> balancer outcome" where
  "update_rtt ident v b =
     (let inner = (case hm_get (rtt_values b) ident of Some m \<Rightarrow> m | None \<Rightarrow> []);
          slot = (case hm_get inner (rt_ip v) of Some s \<Rightarrow> s | None \<Rightarrow> \<lparr>rv_rtt = 0, rv_n = 0\<rparr>);
          n = rv_n slot + 1
      in if n = 0 then Panic ''attempt to divide by zero''
         else Done (b\<lparr>rtt_values := hm_insert ident
                (hm_insert (rt_ip v)
                  \<lparr>rv_rtt = (rv_n slot * rv_rtt slot + rt_rtt v) div n, rv_n = n\<rparr> inner)
                (rtt_values b)\<rparr>))"

section \<open>Choosing consumers\<close>

definition gen_range_ok :: "('g \<Rightarrow> u64 \<Rightarrow> u64 \<times> 'g) \<Rightarrow> bool" where
  "gen_range_ok gen_range \<longleftrightarrow> (\<forall>g n. 0 < n \<longrightarrow> fst (gen_range g n) < n)"

fun sample_loop :: "u64 \<Rightarrow> u64 \<Rightarrow> (string, tx_consumer) hmap \<Rightarrow> tx_consumer option" where
  "sample_loop random_stake_point accumulated_sum [] = None"
| "sample_loop random_stake_point accumulated_sum ((_, c) # cs) =
     (let accumulated_sum' = accumulated_sum + (tc_stake c + 1)
      in if random_stake_point < accumulated_sum' then Some c
         else sample_loop random_stake_point accumulated_sum' cs)"

definition total_weight :: "balancer \<Rightarrow> u64 option" where
  "total_weight b =
     (if total_connected_stake b = 0
      then if tx_consumers b \<noteq> [] then Some (usize_as_u64 (length (tx_consumers b))) else None
      else Some (total_connected_stake b))"

definition sample_consumer_stake_weighted ::
  "('g \<Rightarrow> u64 \<Rightarrow> u64 \<times> 'g) \<Rightarrow> balancer \<Rightarrow> 'g \<Rightarrow> tx_consumer option \<times> 'g" where
  "sample_consumer_stake_weighted gen_range b rng =
     (case total_weight b of
        None \<Rightarrow> (None, rng)
      | Some weight \<Rightarrow>
          (let (random_stake_point, rng') = gen_range rng weight
           in (sample_loop random_stake_point 0 (tx_consumers b), rng')))"

type_synonym picks = "(tx_consumer \<times> leader_info list) list"

definition leader_consumers :: "balancer \<Rightarrow> picks" where
  "leader_consumers b =
     List.map_filter (\<lambda>(ident, c). map_option (\<lambda>tpu. (c, [tpu])) (hm_get (leaders b) ident))
       (tx_consumers b)"

fun fill_consumers ::
  "('g \<Rightarrow> u64 \<Rightarrow> u64 \<times> 'g) \<Rightarrow> balancer \<Rightarrow> nat \<Rightarrow> 'g \<Rightarrow> picks \<Rightarrow> picks" where
  "fill_consumers gen_range b 0 rng consumers = consumers"
| "fill_consumers gen_range b (Suc k) rng consumers =
     (case sample_consumer_stake_weighted gen_range b rng of
        (Some pick, rng') \<Rightarrow> fill_consumers gen_range b k rng' (consumers @ [(pick, [])])
      | (None, rng') \<Rightarrow> consumers)"

text \<open>\<open>consumers[(i + j) % n].1.push(tpu)\<close> for every \<open>j < N_COPIES\<close>.\<close>

definition push_tpu :: "nat \<Rightarrow> leader_info \<Rightarrow> picks \<Rightarrow> picks" where
  "push_tpu k tpu consumers =
     consumers[k := (fst (consumers ! k), snd (consumers ! k) @ [tpu])]"

definition push_copies :: "nat \<Rightarrow> leader_info \<Rightarrow> picks \<Rightarrow> picks" where
  "push_copies i tpu consumers =
     fold (\<lambda>j cs. push_tpu ((i + j) mod length consumers) tpu cs) [0..<N_COPIES] consumers"

fun distribute :: "nat \<Rightarrow> leader_info list list \<Rightarrow> picks \<Rightarrow> picks" where
  "distribute i [] consumers = consumers"
| "distribute i (tpus # rest) consumers =
     distribute (Suc i) rest (fold (push_copies i) tpus consumers)"

definition pick_consumers ::
  "('g \<Rightarrow> u64 \<Rightarrow> u64 \<times> 'g) \<Rightarrow> 'g \<Rightarrow> balancer \<Rightarrow> picks outcome" where
  "pick_consumers gen_range rng b =
     (let first = leader_consumers b;
          consumers = fill_consumers gen_range b
            (N_CONSUMERS - min (length first) N_CONSUMERS) rng first;
          n = length consumers
      in if n > 0 \<and> leader_tpus b \<noteq> []
         then let chunk_len = length (leader_tpus b) div n
              in if chunk_len = 0 then Panic ''chunk size must be non-zero''
                 else Done (distribute 0 (chunks chunk_len (leader_tpus b)) consumers)
         else Done consumers)"

section \<open>Publishing a transaction\<close>

definition flag_unsubscribe :: "string \<Rightarrow> balancer \<Rightarrow> balancer" where
  "flag_unsubscribe ident b =
     b\<lparr>tx_consumers := hm_map_values
         (\<lambda>k c. if k = ident then c\<lparr>tc_do_unsubscribe := True\<rparr> else c) (tx_consumers b)\<rparr>"

fun publish_loop ::
  "(chan \<Rightarrow> response_envelope \<Rightarrow> 'w \<Rightarrow> bool \<times> 'w) \<Rightarrow> string \<Rightarrow> string \<Rightarrow> picks \<Rightarrow>
   's signature_record \<Rightarrow> balancer \<Rightarrow> 'w \<Rightarrow> 's signature_record \<times> balancer \<times> 'w" where
  "publish_loop send signature data [] session b w = (session, b, w)"
| "publish_loop send signature data ((c, info) # picks) session b w =
     (let tpus = hs_collect (map li_tpu info);
          tpu_ips = map before_colon tpus;
          (ok, w') = send (tc_tx c) (build_tx_message_envelope signature data tpus) w
      in if ok
         then publish_loop send signature data picks
                (session\<lparr>sr_consumers := sr_consumers session @ [tc_identity c],
                         sr_tpu_ips := fold hs_insert tpu_ips (sr_tpu_ips session)\<rparr>) b w'
         else publish_loop send signature data picks session
                (flag_unsubscribe (tc_identity c) b) w')"

text \<open>
  The result is what the caller sees (\<open>Inl\<close> an error), the balancer with the flags set, the
  runtime state, and the session handed to the watcher's inbox, if one was.
\<close>

definition publish ::
  "('g \<Rightarrow> u64 \<Rightarrow> u64 \<times> 'g) \<Rightarrow> (chan \<Rightarrow> response_envelope \<Rightarrow> 'w \<Rightarrow> bool \<times> 'w) \<Rightarrow> 'g \<Rightarrow>
   's signature_record \<Rightarrow> string \<Rightarrow> string \<Rightarrow> balancer \<Rightarrow> 'w \<Rightarrow>
   ((string + unit) \<times> balancer \<times> 'w \<times> 's signature_record option) outcome" where
  "publish gen_range send rng session signature data b w =
     outcome_bind (pick_consumers gen_range rng b) (\<lambda>consumers.
       if consumers = [] then Done (Inl ''No available clients connected'', b, w, None)
       else let (session', b', w') = publish_loop send signature data consumers session b w
            in Done (Inr (), b', w', Some session'))"

section \<open>The updater task\<close>

definition lookup_info ::
  "(string \<Rightarrow> 'p option) \<Rightarrow> ('p \<Rightarrow> string option) \<Rightarrow> (string, leader_info) hmap \<Rightarrow> string \<Rightarrow>
   leader_info option outcome" where
  "lookup_info pubkey_from_str tpu_quic validator_records ident =
     (case hm_get validator_records ident of
        None \<Rightarrow> Done None
      | Some rec \<Rightarrow>
          (case pubkey_from_str ident of
             None \<Rightarrow> Panic ''called `Result::unwrap()` on an `Err` value''
           | Some pubkey \<Rightarrow>
               Done (Some (case tpu_quic pubkey of
                             Some tpu \<Rightarrow> rec\<lparr>li_tpu := tpu\<rparr> | None \<Rightarrow> rec))))"

fun lookup_leaders ::
  "(string \<Rightarrow> 'p option) \<Rightarrow> ('p \<Rightarrow> string option) \<Rightarrow> (string, leader_info) hmap \<Rightarrow> string list \<Rightarrow>
   (string \<times> leader_info) list outcome" where
  "lookup_leaders pubkey_from_str tpu_quic info_map [] = Done []"
| "lookup_leaders pubkey_from_str tpu_quic info_map (ident # idents) =
     outcome_bind (lookup_info pubkey_from_str tpu_quic info_map ident) (\<lambda>info.
       outcome_bind (lookup_leaders pubkey_from_str tpu_quic info_map idents) (\<lambda>rest.
         Done (case info of Some v \<Rightarrow> (ident, v) # rest | None \<Rightarrow> rest)))"

text \<open>
  The start of the task: the entry point of the gossip network is resolved and its first address, if
  any, is given to the gossip node; no validator record is known yet.
\<close>

definition balancer_updater ::
  "(string \<Rightarrow> 'addr list option) \<Rightarrow> ('addr option \<Rightarrow> 'cluster) \<Rightarrow> ('cluster \<times> (string, leader_info) hmap) outcome" where
  "balancer_updater to_socket_addrs make_gossip_node =
     outcome_bind (unwrap (to_socket_addrs GOSSIP_ENTRYPOINT)) (\<lambda>entry_addrs.
       Done (make_gossip_node (case entry_addrs of [] \<Rightarrow> None | a # _ \<Rightarrow> Some a), []))"

record updater =
  up_balancer :: balancer
  up_info_map :: "(string, leader_info) hmap"

datatype updater_event =
    Nodes_hint "string + (string, leader_info) hmap"
  | New_leaders "string list"

fun updater_step ::
  "(string \<Rightarrow> 'p option) \<Rightarrow> ('p \<Rightarrow> string option) \<Rightarrow> updater_event \<Rightarrow> updater \<Rightarrow>
   (updater \<times> effect list) outcome" where
  "updater_step pubkey_from_str tpu_quic (Nodes_hint resp) u =
     Done (case resp of Inr m \<Rightarrow> (u\<lparr>up_info_map := m\<rparr>, []) | Inl err \<Rightarrow> (u, []))"
| "updater_step pubkey_from_str tpu_quic (New_leaders plain_leaders) u =
     outcome_bind (lookup_leaders pubkey_from_str tpu_quic (up_info_map u) plain_leaders) (\<lambda>kvs.
       let leaders_info = hm_collect kvs;
           leader_values = hm_values leaders_info;
           (b', effs) = flush_unsubscribes (set_leaders leader_values leaders_info (up_balancer u))
       in Done (u\<lparr>up_balancer := b'\<rparr>, effs))"

end
