(* ===== verification/Registry.thy ===== *)
theory Registry
  imports Mtx_Prelude
begin

text \<open>
  The interfaces the components share, with the facts that follow from them.

  \<^item> \<open>session_registry\<close>: a table of the token that owns each identity. Opening a session
    makes its token the owner; closing one frees the identity only if the token still owns it.
    This is what the gRPC sessions rely on when a client reconnects while the task of its previous
    connection is still being torn down.
  \<^item> \<open>inductive_invariant\<close>: a step relation with an initial state and a predicate every step
    keeps; the predicate then holds in all reachable states.
  \<^item> \<open>preserved\<close>: a predicate that every step of a labelled step relation keeps.
  \<^item> \<open>simulation\<close>, which extends it: a labelled step relation that implements another one through an abstraction
    function; every run of the first is then a run of the second with the same labels.
  \<^item> \<open>panicking\<close>: a process whose events run code that may panic, which ends it with exit code 1; some
    events end it regularly, with the exit code \<open>quits\<close> gives.
\<close>

section \<open>Ownership of identities\<close>

locale session_registry =
  fixes owner :: "'st \<Rightarrow> 'i \<Rightarrow> 't option"
    and opens :: "'i \<Rightarrow> 't \<Rightarrow> 'st \<Rightarrow> 'st"
    and closes :: "'i \<Rightarrow> 't \<Rightarrow> 'st \<Rightarrow> 'st"
  assumes owner_opens: "owner (opens i t s) = (owner s)(i \<mapsto> t)"
    and owner_closes:
      "owner (closes i t s) = (if owner s i = Some t then (owner s)(i := None) else owner s)"
begin

text \<open>A session that lost its identity to a newer one cannot evict it.\<close>

lemma takeover_survives: "t \<noteq> t' \<Longrightarrow> owner (closes i t (opens i t' s)) = (owner s)(i \<mapsto> t')"
  by (simp add: owner_opens owner_closes)

lemma open_then_close: "owner (closes i t (opens i t s)) = (owner s)(i := None)"
  by (simp add: owner_opens owner_closes)

lemma close_idempotent: "owner (closes i t (closes i t s)) = owner (closes i t s)"
  by (simp add: owner_closes)

lemma close_frame: "j \<noteq> i \<Longrightarrow> owner (closes i t s) j = owner s j"
  by (simp add: owner_closes)

lemma closes_commute:
  "owner (closes i t (closes j u s)) = owner (closes j u (closes i t s))"
  by (auto simp: owner_closes fun_eq_iff)

lemma owner_closes_fold:
  "owner (fold (\<lambda>(i, t). closes i t) es s) i =
     (case owner s i of None \<Rightarrow> None | Some t \<Rightarrow> if (i, t) \<in> set es then None else Some t)"
  by (induction es arbitrary: s) (auto simp: owner_closes split: option.splits if_splits)

end

section \<open>Invariants of step relations\<close>

locale inductive_invariant =
  fixes init :: 's
    and step :: "'s \<Rightarrow> 's \<Rightarrow> bool"
    and inv :: "'s \<Rightarrow> bool"
  assumes inv_init: "inv init"
    and inv_step: "inv s \<Longrightarrow> step s s' \<Longrightarrow> inv s'"
begin

lemma inv_steps: "step\<^sup>*\<^sup>* s s' \<Longrightarrow> inv s \<Longrightarrow> inv s'"
  by (induction rule: rtranclp_induct) (auto intro: inv_step)

lemma inv_reachable: "step\<^sup>*\<^sup>* init s \<Longrightarrow> inv s"
  using inv_steps inv_init by blast

end

section \<open>Refinement of labelled step relations\<close>

text \<open>A run: the labels of the steps from one state to another, in order.\<close>

inductive run :: "('s \<Rightarrow> 'l \<Rightarrow> 's \<Rightarrow> bool) \<Rightarrow> 's \<Rightarrow> 'l list \<Rightarrow> 's \<Rightarrow> bool" for step where
  run_nil: "run step s [] s"
| run_snoc: "run step s ls s' \<Longrightarrow> step s' l s'' \<Longrightarrow> run step s (ls @ [l]) s''"

lemma run_single: "step s l s' \<Longrightarrow> run step s [l] s'"
  using run_snoc [OF run_nil, of step s l s'] by simp

lemma run_append: "run step s' ls' s'' \<Longrightarrow> run step s ls s' \<Longrightarrow> run step s (ls @ ls') s''"
  by (induction rule: run.induct) (auto simp flip: append_assoc intro: run_snoc)

lemma run_Nil [simp]: "run step s [] s' \<longleftrightarrow> s' = s"
  by (auto elim: run.cases intro: run_nil)

lemma run_Cons: "run step s (l # ls) s'' \<longleftrightarrow> (\<exists>s'. step s l s' \<and> run step s' ls s'')"
proof
  show "run step s (l # ls) s'' \<Longrightarrow> \<exists>s'. step s l s' \<and> run step s' ls s''"
  proof (induction "l # ls" s'' arbitrary: ls rule: run.induct)
    case (run_snoc s0 ks s' k s'')
    then show ?case by (cases ks) (auto intro: run.intros)
  qed
next
  assume "\<exists>s'. step s l s' \<and> run step s' ls s''"
  then show "run step s (l # ls) s''" using run_append [of step _ ls s'' s "[l]"] run_single by fastforce
qed

locale preserved =
  fixes step :: "'s \<Rightarrow> 'l \<Rightarrow> 's \<Rightarrow> bool"
    and inv :: "'s \<Rightarrow> bool"
  assumes inv_lstep: "inv s \<Longrightarrow> step s l s' \<Longrightarrow> inv s'"
begin

lemma inv_run: "run step s ls s' \<Longrightarrow> inv s \<Longrightarrow> inv s'"
  by (induction rule: run.induct) (auto intro: inv_lstep)

end

locale simulation = preserved cstep inv
  for cstep :: "'c \<Rightarrow> 'l \<Rightarrow> 'c \<Rightarrow> bool" and inv :: "'c \<Rightarrow> bool" +
  fixes astep :: "'a \<Rightarrow> 'l \<Rightarrow> 'a \<Rightarrow> bool"
    and abs :: "'c \<Rightarrow> 'a"
  assumes sim_step: "inv c \<Longrightarrow> cstep c l c' \<Longrightarrow> astep (abs c) l (abs c')"
begin

lemma run_refines: "run cstep c ls c' \<Longrightarrow> inv c \<Longrightarrow> run astep (abs c) ls (abs c') \<and> inv c'"
  by (induction rule: run.induct) (auto intro: run.intros inv_lstep sim_step)

text \<open>What holds along all runs of the specification holds of the abstractions of the implementation.\<close>

lemma transfer_run:
  assumes "\<And>s'. run astep (abs c) ls s' \<Longrightarrow> P s'" and "run cstep c ls c'" and "inv c"
  shows "P (abs c')"
  using run_refines assms by blast

end

section \<open>Processes\<close>

definition on_alive :: "('a \<Rightarrow> bool) \<Rightarrow> 'a process \<Rightarrow> bool" where
  "on_alive P p = (case p of Alive s \<Rightarrow> P s | Exited code \<Rightarrow> True)"

lemma on_alive_simps [simp]: "on_alive P (Alive s) = P s" "on_alive P (Exited n)"
  by (simp_all add: on_alive_def)

lemma exit_on_panic_simps [simp]:
  "exit_on_panic (Done s) = Alive s" "exit_on_panic (Panic msg) = Exited 1"
  by (simp_all add: exit_on_panic_def)

text \<open>A given sequence of events, if each of them can happen and none panics.\<close>

fun exec_trace :: "('l \<Rightarrow> 's \<Rightarrow> bool) \<Rightarrow> ('l \<Rightarrow> 's \<Rightarrow> 's outcome) \<Rightarrow> 'l list \<Rightarrow> 's \<Rightarrow> 's option" where
  "exec_trace enabled exec [] s = Some s"
| "exec_trace enabled exec (e # es) s =
     (if enabled e s
      then (case exec e s of Done s' \<Rightarrow> exec_trace enabled exec es s' | Panic err \<Rightarrow> None)
      else None)"

locale panicking =
  fixes enabled :: "'l \<Rightarrow> 's \<Rightarrow> bool"
    and exec :: "'l \<Rightarrow> 's \<Rightarrow> 's outcome"
    and quits :: "'l \<Rightarrow> nat option"
    and step :: "'s process \<Rightarrow> 'l \<Rightarrow> 's process \<Rightarrow> bool"
  assumes step_iff: "step p e p' \<longleftrightarrow> (\<exists>s. p = Alive s \<and> enabled e s \<and>
    p' = (case quits e of Some code \<Rightarrow> Exited code | None \<Rightarrow> exit_on_panic (exec e s)))"
begin

lemma step_Alive: "step p e (Alive s') \<longleftrightarrow> (\<exists>s. p = Alive s \<and> enabled e s \<and> quits e = None \<and> exec e s = Done s')"
proof -
  have "Alive s' = exit_on_panic r \<longleftrightarrow> r = Done s'" for r by (cases r) auto
  then show ?thesis by (cases "quits e") (auto simp: step_iff)
qed

lemma preservedI:
  assumes "\<And>e s s'. P s \<Longrightarrow> enabled e s \<Longrightarrow> exec e s = Done s' \<Longrightarrow> P s'"
  shows "preserved step (on_alive P)"
proof
  fix p e p' assume p: "on_alive P p" and st: "step p e p'"
  show "on_alive P p'"
  proof (cases p')
    case (Alive s')
    with st p assms show ?thesis by (auto simp: step_Alive)
  qed simp
qed

lemma exits_iff:
  "enabled e s \<Longrightarrow> step (Alive s) e (Exited c) \<longleftrightarrow>
     quits e = Some c \<or> quits e = None \<and> c = 1 \<and> (\<exists>err. exec e s = Panic err)"
  by (cases "exec e s") (auto simp: step_iff split: option.split)

lemma continues_iff: "enabled e s \<Longrightarrow> step (Alive s) e (Alive s') \<longleftrightarrow> quits e = None \<and> exec e s = Done s'"
  by (auto simp: step_Alive)

lemma trace_run:
  "exec_trace (\<lambda>e s. quits e = None \<and> enabled e s) exec es s = Some s' \<Longrightarrow> run step (Alive s) es (Alive s')"
proof (induction es arbitrary: s)
  case (Cons e es)
  then obtain s1 where s1: "enabled e s" "quits e = None" "exec e s = Done s1"
    "exec_trace (\<lambda>e s. quits e = None \<and> enabled e s) exec es s1 = Some s'"
    by (auto split: if_splits outcome.splits)
  with continues_iff [OF s1(1)] Cons.IH show ?case unfolding run_Cons by blast
qed simp

text \<open>What relates the state to all events so far.\<close>

lemma trace_inv:
  assumes "run step (Alive s0) es (Alive s)" and "P [] s0"
    and "\<And>es e s s'. P es s \<Longrightarrow> enabled e s \<Longrightarrow> exec e s = Done s' \<Longrightarrow> P (es @ [e]) s'"
  shows "P es s"
proof -
  have "p = Alive s0 \<Longrightarrow> q = Alive s \<Longrightarrow> P es s" if "run step p es q" for p es q s
    using that
  proof (induction arbitrary: s rule: run.induct)
    case (run_snoc p es q e r)
    from run_snoc.hyps(2) run_snoc.prems(2) obtain s1 where "q = Alive s1" "enabled e s1" "exec e s1 = Done s"
      by (auto simp: step_Alive)
    with run_snoc.IH [OF run_snoc.prems(1)] assms(3) show ?case by blast
  qed (use assms(2) in simp)
  from this [OF assms(1) refl refl] show ?thesis .
qed

end

end
