(* ===== verification/Balancer_Registry.thy ===== *)
theory Balancer_Registry
  imports Balancer Registry
begin

text \<open>
  The consumer registry of the balancer: its invariant, the token ownership it implements
  (an interpretation of \<open>session_registry\<close>), the bookkeeping of the connected stake, the
  removal of flagged consumers and the running averages of round-trip times.
\<close>

section \<open>Invariant and abstraction\<close>

definition consumer_ok :: "balancer \<Rightarrow> string \<Rightarrow> tx_consumer \<Rightarrow> bool" where
  "consumer_ok b ident c \<longleftrightarrow>
     tc_identity c = ident \<and> tc_stake c = stake_of (stake_weights b) ident \<and>
     tc_tx_unsubscribe c \<noteq> None"

definition bal_inv :: "balancer \<Rightarrow> bool" where
  "bal_inv b \<longleftrightarrow> hm_ok (tx_consumers b) \<and> (\<forall>(ident, c) \<in> set (tx_consumers b). consumer_ok b ident c)"

definition owner :: "balancer \<Rightarrow> string \<Rightarrow> string option" where
  "owner b ident = map_option tc_token (hm_get (tx_consumers b) ident)"

definition connected_stake :: "balancer \<Rightarrow> u64" where
  "connected_stake b = sum_list (map (\<lambda>(_, c). tc_stake c) (tx_consumers b))"

definition stake_synced :: "balancer \<Rightarrow> bool" where
  "stake_synced b \<longleftrightarrow> total_connected_stake b = connected_stake b"

lemma bal_invD:
  assumes "bal_inv b"
  shows "hm_ok (tx_consumers b)"
    and "(ident, c) \<in> set (tx_consumers b) \<Longrightarrow> consumer_ok b ident c"
  using assms by (auto simp: bal_inv_def)

lemma bal_inv_identity:
  "bal_inv b \<Longrightarrow> (ident, c) \<in> set (tx_consumers b) \<Longrightarrow> tc_identity c = ident"
  using bal_invD(2) by (fastforce simp: consumer_ok_def)

section \<open>The effect of each operation on the registry\<close>

lemma recalc_fields [simp]:
  "tx_consumers (fst (recalc_total_connected_stake b)) = tx_consumers b"
  "stake_weights (fst (recalc_total_connected_stake b)) = stake_weights b"
  "leaders (fst (recalc_total_connected_stake b)) = leaders b"
  "leader_tpus (fst (recalc_total_connected_stake b)) = leader_tpus b"
  "rtt_values (fst (recalc_total_connected_stake b)) = rtt_values b"
  "watcher_inbox (fst (recalc_total_connected_stake b)) = watcher_inbox b"
  "stake_synced (fst (recalc_total_connected_stake b))"
  by (simp_all add: recalc_total_connected_stake_def stake_synced_def connected_stake_def)

lemma fst_subscribe:
  "fst (subscribe ident tok tx tu b) = fst (recalc_total_connected_stake
     (b\<lparr>tx_consumers := hm_insert ident
        \<lparr>tc_identity = ident, tc_stake = stake_of (stake_weights b) ident, tc_tx = tx,
         tc_token = tok, tc_tx_unsubscribe = Some tu, tc_do_unsubscribe = False\<rparr>
        (tx_consumers b)\<rparr>))"
  by (simp add: subscribe_def case_prod_beta Let_def)

lemma fst_unsubscribe:
  "fst (unsubscribe ident tok b) =
     (if owner b ident = Some tok
      then fst (recalc_total_connected_stake (b\<lparr>tx_consumers := hm_remove ident (tx_consumers b)\<rparr>))
      else b)"
  by (auto simp: unsubscribe_def owner_def case_prod_beta split: option.split)

lemma tx_consumers_subscribe [simp]:
  "tx_consumers (fst (subscribe ident tok tx tu b)) =
     hm_insert ident
       \<lparr>tc_identity = ident, tc_stake = stake_of (stake_weights b) ident, tc_tx = tx,
        tc_token = tok, tc_tx_unsubscribe = Some tu, tc_do_unsubscribe = False\<rparr> (tx_consumers b)"
  by (simp add: fst_subscribe)

lemma owner_iff:
  "hm_ok (tx_consumers b) \<Longrightarrow> owner b ident = Some tok \<longleftrightarrow>
     (\<exists>c. (ident, c) \<in> set (tx_consumers b) \<and> tc_token c = tok)"
  by (auto simp: owner_def hm_get_iff)

lemma tx_consumers_unsubscribe:
  assumes ok: "hm_ok (tx_consumers b)"
  shows "tx_consumers (fst (unsubscribe ident tok b)) =
     filter (\<lambda>(k, c). (k, tc_token c) \<noteq> (ident, tok)) (tx_consumers b)"
proof (cases "owner b ident = Some tok")
  case True
  have "hm_remove ident (tx_consumers b) =
      filter (\<lambda>(k, c). (k, tc_token c) \<noteq> (ident, tok)) (tx_consumers b)"
    unfolding hm_remove_def
  proof (rule filter_cong [OF refl])
    fix e assume e: "e \<in> set (tx_consumers b)"
    obtain k c where kc: "e = (k, c)" by fastforce
    have "tc_token c = tok" if "k = ident"
      using e True that ok by (simp add: kc owner_def hm_get_iff [symmetric])
    then show "(fst e \<noteq> ident) = (case e of (k, c) \<Rightarrow> (k, tc_token c) \<noteq> (ident, tok))"
      by (auto simp: kc)
  qed
  with True show ?thesis by (simp add: fst_unsubscribe)
next
  case False
  then have "\<forall>e \<in> set (tx_consumers b). (case e of (k, c) \<Rightarrow> (k, tc_token c) \<noteq> (ident, tok))"
    by (auto simp: owner_iff [OF ok])
  with False show ?thesis by (simp add: fst_unsubscribe)
qed

lemma unsubscribe_fields [simp]:
  "stake_weights (fst (unsubscribe ident tok b)) = stake_weights b"
  "leaders (fst (unsubscribe ident tok b)) = leaders b"
  "leader_tpus (fst (unsubscribe ident tok b)) = leader_tpus b"
  "rtt_values (fst (unsubscribe ident tok b)) = rtt_values b"
  by (simp_all add: fst_unsubscribe)

lemma subscribe_fields [simp]:
  "stake_weights (fst (subscribe ident tok tx tu b)) = stake_weights b"
  "leaders (fst (subscribe ident tok tx tu b)) = leaders b"
  "leader_tpus (fst (subscribe ident tok tx tu b)) = leader_tpus b"
  "rtt_values (fst (subscribe ident tok tx tu b)) = rtt_values b"
  by (simp_all add: fst_subscribe)

lemma owner_subscribe [simp]:
  "owner (fst (subscribe ident tok tx tu b)) = (owner b)(ident \<mapsto> tok)"
  by (auto simp: owner_def)

lemma owner_unsubscribe:
  "owner (fst (unsubscribe ident tok b)) =
     (if owner b ident = Some tok then (owner b)(ident := None) else owner b)"
  by (auto simp: fst_unsubscribe owner_def)

interpretation reg: session_registry owner "\<lambda>i t b. fst (subscribe i t tx tu b)"
    "\<lambda>i t b. fst (unsubscribe i t b)" for tx tu
  by unfold_locales (simp_all add: owner_unsubscribe)

lemma fst_unsubscribe_all:
  "fst (unsubscribe_all [] b) = b"
  "fst (unsubscribe_all (e # es) b) = fst (unsubscribe_all es (fst (unsubscribe (fst e) (snd e) b)))"
  by (simp_all add: case_prod_beta) (cases e, simp add: case_prod_beta Let_def)

lemma unsubscribe_all_filter:
  "hm_ok (tx_consumers b) \<Longrightarrow> tx_consumers (fst (unsubscribe_all es b)) =
     filter (\<lambda>(k, c). (k, tc_token c) \<notin> set es) (tx_consumers b)"
proof (induction es arbitrary: b)
  case Nil
  then show ?case by (simp add: fst_unsubscribe_all)
next
  case (Cons e es)
  have "tx_consumers (fst (unsubscribe_all (e # es) b)) =
      filter (\<lambda>(k, c). (k, tc_token c) \<notin> set es)
        (filter (\<lambda>(k, c). (k, tc_token c) \<noteq> (fst e, snd e)) (tx_consumers b))"
    using Cons by (simp only: fst_unsubscribe_all tx_consumers_unsubscribe hm_ok_filter)
  also have "\<dots> = filter (\<lambda>(k, c). (k, tc_token c) \<notin> set (e # es)) (tx_consumers b)"
    unfolding filter_filter by (intro filter_cong) auto
  finally show ?case .
qed

lemma flush_unsubscribes_filter:
  assumes "bal_inv b"
  shows "tx_consumers (fst (flush_unsubscribes b)) =
     filter (\<lambda>(_, c). \<not> tc_do_unsubscribe c) (tx_consumers b)"
proof -
  note ok = bal_invD(1) [OF assms]
  have "(k, tc_token c) \<in> (\<lambda>c. (tc_identity c, tc_token c)) ` {c \<in> snd ` set (tx_consumers b). tc_do_unsubscribe c}
      \<longleftrightarrow> tc_do_unsubscribe c" if kc: "(k, c) \<in> set (tx_consumers b)" for k c
  proof
    assume "(k, tc_token c) \<in> (\<lambda>c. (tc_identity c, tc_token c)) ` {c \<in> snd ` set (tx_consumers b). tc_do_unsubscribe c}"
    then obtain j d where "(j, d) \<in> set (tx_consumers b)" "tc_do_unsubscribe d" "tc_identity d = k"
      by auto
    with kc show "tc_do_unsubscribe c"
      using bal_inv_identity [OF assms] by (metis hm_get_iff [OF ok] option.inject)
  next
    assume "tc_do_unsubscribe c"
    with kc show "(k, tc_token c) \<in> (\<lambda>c. (tc_identity c, tc_token c)) ` {c \<in> snd ` set (tx_consumers b). tc_do_unsubscribe c}"
      using bal_inv_identity [OF assms kc] by force
  qed
  then show ?thesis
    unfolding flush_unsubscribes_def
    by (auto simp: unsubscribe_all_filter ok hm_values_def intro!: filter_cong)
qed

section \<open>Preservation\<close>

lemma bal_inv_new [mtx_inv]: "bal_inv (balancer_new inbox)"
  by (simp add: bal_inv_def balancer_new_def)

lemma bal_inv_subscribe [mtx_inv]: "bal_inv b \<Longrightarrow> bal_inv (fst (subscribe ident tok tx tu b))"
  by (auto simp: bal_inv_def consumer_ok_def set_hm_insert)

lemma bal_inv_filter:
  "bal_inv b \<Longrightarrow> tx_consumers b' = filter P (tx_consumers b) \<Longrightarrow>
     stake_weights b' = stake_weights b \<Longrightarrow> bal_inv b'"
  by (auto simp: bal_inv_def consumer_ok_def hm_ok_filter)

lemma bal_inv_unsubscribe [mtx_inv]: "bal_inv b \<Longrightarrow> bal_inv (fst (unsubscribe ident tok b))"
  by (rule bal_inv_filter) (simp_all add: tx_consumers_unsubscribe bal_invD(1))

lemma bal_inv_unsubscribe_all: "bal_inv b \<Longrightarrow> bal_inv (fst (unsubscribe_all es b))"
  by (induction es arbitrary: b) (simp_all add: fst_unsubscribe_all bal_inv_unsubscribe)

lemma bal_inv_flush [mtx_inv]: "bal_inv b \<Longrightarrow> bal_inv (fst (flush_unsubscribes b))"
  by (simp add: flush_unsubscribes_def bal_inv_unsubscribe_all)

lemma bal_inv_update_stake_weights [mtx_inv]:
  "bal_inv b \<Longrightarrow> bal_inv (update_stake_weights weights b)"
  by (auto simp: bal_inv_def update_stake_weights_def consumer_ok_def set_hm_map_values)

lemma bal_inv_set_leaders [mtx_inv]: "bal_inv (set_leaders tpus ls b) \<longleftrightarrow> bal_inv b"
  by (simp add: bal_inv_def set_leaders_def consumer_ok_def)

lemma bal_inv_update_rtt [mtx_inv]: "update_rtt ident v b = Done b' \<Longrightarrow> bal_inv b \<Longrightarrow> bal_inv b'"
  by (auto simp: update_rtt_def Let_def bal_inv_def consumer_ok_def split: if_splits)

lemma bal_inv_flag [mtx_inv]: "bal_inv b \<Longrightarrow> bal_inv (flag_unsubscribe ident b)"
  by (auto simp: bal_inv_def flag_unsubscribe_def consumer_ok_def set_hm_map_values)

lemma bal_inv_rehash [mtx_inv]:
  "bal_inv b \<Longrightarrow> hm_same (tx_consumers b) m \<Longrightarrow> bal_inv (b\<lparr>tx_consumers := m\<rparr>)"
  using hm_same_set [of "tx_consumers b" m] hm_same_ok [of "tx_consumers b" m]
  by (simp add: bal_inv_def consumer_ok_def)

section \<open>The connected stake\<close>

lemma stake_synced_subscribe: "stake_synced (fst (subscribe ident tok tx tu b))"
  by (simp add: fst_subscribe)

lemma stake_synced_unsubscribe: "stake_synced b \<Longrightarrow> stake_synced (fst (unsubscribe ident tok b))"
  by (simp add: fst_unsubscribe)

lemma stake_synced_unsubscribe_all: "stake_synced b \<Longrightarrow> stake_synced (fst (unsubscribe_all es b))"
  by (induction es arbitrary: b) (simp_all add: fst_unsubscribe_all stake_synced_unsubscribe)

lemma stake_synced_flush: "stake_synced b \<Longrightarrow> stake_synced (fst (flush_unsubscribes b))"
  by (simp add: flush_unsubscribes_def stake_synced_unsubscribe_all)

lemma connected_stake_flag [simp]: "connected_stake (flag_unsubscribe ident b) = connected_stake b"
  unfolding connected_stake_def flag_unsubscribe_def hm_map_values_def
  by (auto simp: case_prod_beta intro!: arg_cong [where f = sum_list])

lemma stake_synced_flag [simp]: "stake_synced (flag_unsubscribe ident b) \<longleftrightarrow> stake_synced b"
  by (simp add: stake_synced_def) (simp add: flag_unsubscribe_def)

lemma connected_stake_nat:
  assumes "sum_list (map (\<lambda>(_, c). unat (tc_stake c)) (tx_consumers b)) < 2 ^ 64"
  shows "unat (connected_stake b) = sum_list (map (\<lambda>(_, c). unat (tc_stake c)) (tx_consumers b))"
  using unat_sum_list_no_wrap [of "map (\<lambda>(_, c). tc_stake c) (tx_consumers b)"] assms
  by (simp add: connected_stake_def comp_def case_prod_unfold)

section \<open>Round-trip times\<close>

definition rtt_slot :: "balancer \<Rightarrow> string \<Rightarrow> string \<Rightarrow> rtt_value" where
  "rtt_slot b ident ip =
     (case hm_get (rtt_values b) ident of
        None \<Rightarrow> \<lparr>rv_rtt = 0, rv_n = 0\<rparr>
      | Some m \<Rightarrow> (case hm_get m ip of None \<Rightarrow> \<lparr>rv_rtt = 0, rv_n = 0\<rparr> | Some s \<Rightarrow> s))"

lemma update_rtt_slot:
  assumes "rv_n (rtt_slot b ident (rt_ip v)) + 1 \<noteq> 0"
  shows "\<exists>b'. update_rtt ident v b = Done b' \<and>
     rtt_slot b' j ip =
       (if j = ident \<and> ip = rt_ip v
        then let s = rtt_slot b ident (rt_ip v); n = rv_n s + 1
             in \<lparr>rv_rtt = (rv_n s * rv_rtt s + rt_rtt v) div n, rv_n = n\<rparr>
        else rtt_slot b j ip)"
  using assms
  by (auto simp: update_rtt_def rtt_slot_def Let_def split: option.splits)

lemma average_between:
  fixes n a v :: nat
  assumes "0 < n"
  shows "min a v \<le> (n * a + v) div Suc n \<and> (n * a + v) div Suc n \<le> max a v"
proof -
  have "Suc n * min a v \<le> n * a + v"
    by (simp add: add.commute add_mono mult_le_mono2)
  then have "min a v \<le> (n * a + v) div Suc n"
    by (metis div_le_mono nonzero_mult_div_cancel_left nat.simps(3))
  moreover have "n * a + v \<le> Suc n * max a v"
    by (simp add: add.commute add_mono mult_le_mono2)
  then have "(n * a + v) div Suc n \<le> max a v"
    by (metis div_le_mono nonzero_mult_div_cancel_left nat.simps(3))
  ultimately show ?thesis by simp
qed

lemma unsubscribe_all_notifies:
  "hm_ok (tx_consumers b) \<Longrightarrow> (k, c) \<in> set (tx_consumers b) \<Longrightarrow> (k, tc_token c) \<in> set es \<Longrightarrow>
     tc_tx_unsubscribe c = Some os \<Longrightarrow> Unsubscribed os \<in> set (snd (unsubscribe_all es b))"
proof (induction es arbitrary: b)
  case (Cons e es)
  note kc = hm_get_iff [OF Cons.prems(1), THEN iffD2, OF Cons.prems(2)]
  show ?case
  proof (cases "e = (k, tc_token c)")
    case True
    with kc Cons.prems(4) show ?thesis
      by (simp add: unsubscribe_def drop_consumer_def Let_def case_prod_beta)
  next
    case False
    then have "(k, c) \<in> set (tx_consumers (fst (unsubscribe (fst e) (snd e) b)))"
      using Cons.prems(1,2) by (auto simp: tx_consumers_unsubscribe)
    moreover have "hm_ok (tx_consumers (fst (unsubscribe (fst e) (snd e) b)))"
      using Cons.prems(1) by (simp add: tx_consumers_unsubscribe hm_ok_filter)
    ultimately have "Unsubscribed os \<in> set (snd (unsubscribe_all es (fst (unsubscribe (fst e) (snd e) b))))"
      using Cons.IH Cons.prems(3,4) False by auto
    then show ?thesis by (cases e) (simp add: Let_def case_prod_beta)
  qed
qed simp

lemma flush_notifies:
  assumes "bal_inv b" and kc: "(k, c) \<in> set (tx_consumers b)" and flag: "tc_do_unsubscribe c"
  shows "\<exists>os. tc_tx_unsubscribe c = Some os \<and> Unsubscribed os \<in> set (snd (flush_unsubscribes b))"
proof -
  from bal_invD(2) [OF assms(1) kc] obtain os where os: "tc_tx_unsubscribe c = Some os"
    and ident: "tc_identity c = k" by (auto simp: consumer_ok_def)
  have "(k, tc_token c) \<in> set (map (\<lambda>c. (tc_identity c, tc_token c))
      (filter tc_do_unsubscribe (hm_values (tx_consumers b))))"
    using kc flag ident by (force simp: hm_values_def)
  from unsubscribe_all_notifies [OF bal_invD(1) [OF assms(1)] kc this os] os show ?thesis
    by (simp add: flush_unsubscribes_def)
qed

section \<open>Reading a list of effects\<close>

definition metric_ops :: "effect list \<Rightarrow> metric_op list" where
  "metric_ops effs = List.map_filter (\<lambda>e. case e of Metric m \<Rightarrow> Some m | Unsubscribed _ \<Rightarrow> None) effs"

lemma metric_ops_simps [simp]:
  "metric_ops [] = []"
  "metric_ops (Metric m # effs) = m # metric_ops effs"
  "metric_ops (Unsubscribed os # effs) = metric_ops effs"
  by (simp_all add: metric_ops_def map_filter_simps)

lemma metric_ops_append [simp]: "metric_ops (effs @ effs') = metric_ops effs @ metric_ops effs'"
  by (induction effs) (auto simp: metric_ops_def map_filter_simps split: effect.splits)

lemma metric_ops_drop [simp]: "metric_ops (drop_consumer c) = []"
  by (simp add: drop_consumer_def split: option.split)

lemma metric_ops_map [simp]: "metric_ops (map (\<lambda>x. Metric (f x)) xs) = map f xs"
  by (induction xs) simp_all

definition notices :: "effect list \<Rightarrow> oneshot list" where
  "notices effs = List.map_filter (\<lambda>e. case e of Unsubscribed os \<Rightarrow> Some os | Metric _ \<Rightarrow> None) effs"

lemma notices_simps [simp]:
  "notices [] = []" "notices (Metric m # effs) = notices effs" "notices (Unsubscribed os # effs) = os # notices effs"
  by (simp_all add: notices_def map_filter_simps)

lemma set_notices [simp]: "os \<in> set (notices effs) \<longleftrightarrow> Unsubscribed os \<in> set effs"
proof (induction effs)
  case (Cons e effs)
  then show ?case by (cases e) auto
qed simp

section \<open>Properties\<close>

text \<open>
  C17. Reconnection. When a client subscribes while an older session of the same identity is
  registered, the older session is told so on its oneshot channel before anything else happens,
  and when the older session's task later cleans up with its own token, the new session stays
  registered: the owner of the identity is the new token, and no other identity is affected.
\<close>

theorem reconnect_is_safe:
  assumes "bal_inv b" and "hm_get (tx_consumers b) ident = Some old" and "tc_token old \<noteq> tok"
  shows "(\<exists>os rest. tc_tx_unsubscribe old = Some os \<and>
       snd (subscribe ident tok tx tu b) = Unsubscribed os # rest) \<and>
     owner (fst (unsubscribe ident (tc_token old) (fst (subscribe ident tok tx tu b)))) =
       (owner b)(ident \<mapsto> tok)"
proof -
  from assms(1,2) have "consumer_ok b ident old"
    by (auto simp: bal_inv_def hm_get_iff)
  then obtain os where os: "tc_tx_unsubscribe old = Some os"
    by (auto simp: consumer_ok_def)
  with assms(2) have "\<exists>rest. snd (subscribe ident tok tx tu b) = Unsubscribed os # rest"
    by (simp add: subscribe_def drop_consumer_def Let_def case_prod_beta)
  with os reg.takeover_survives [OF assms(3)] show ?thesis by auto
qed

theorem reconnect_is_safe_witness:
  "owner (fst (unsubscribe ''v'' ''t1'' (fst (subscribe ''v'' ''t2'' 2 2
      (fst (subscribe ''v'' ''t1'' 1 1 (balancer_new 0))))))) = [''v'' \<mapsto> ''t2'']"
proof -
  let ?b = "fst (subscribe ''v'' ''t1'' 1 1 (balancer_new 0))"
  let ?old = "\<lparr>tc_identity = ''v'', tc_stake = 1, tc_tx = 1, tc_token = ''t1'',
      tc_tx_unsubscribe = Some 1, tc_do_unsubscribe = False\<rparr>"
  have "bal_inv ?b" by (simp add: mtx_inv)
  moreover have "hm_get (tx_consumers ?b) ''v'' = Some ?old"
    by (simp add: balancer_new_def stake_of_def hm_get_Cons)
  ultimately have "owner (fst (unsubscribe ''v'' (tc_token ?old) (fst (subscribe ''v'' ''t2'' 2 2 ?b))))
      = (owner ?b)(''v'' \<mapsto> ''t2'')"
    using reconnect_is_safe [of ?b "''v''" ?old "''t2''" 2 2] by simp
  then show ?thesis by (simp add: owner_def balancer_new_def fun_eq_iff)
qed

text \<open>
  Flushing removes exactly the flagged consumers: afterwards the registry holds the unflagged
  consumers, unchanged and in the same order, and every removed consumer is notified on its
  oneshot channel.
\<close>

theorem flush_removes_exactly_flagged:
  assumes "bal_inv b"
  shows "tx_consumers (fst (flush_unsubscribes b)) =
       filter (\<lambda>(_, c). \<not> tc_do_unsubscribe c) (tx_consumers b) \<and>
     (\<forall>(ident, c) \<in> set (tx_consumers b). tc_do_unsubscribe c \<longrightarrow>
        (\<exists>os. tc_tx_unsubscribe c = Some os \<and>
              Unsubscribed os \<in> set (snd (flush_unsubscribes b))))"
  using flush_unsubscribes_filter [OF assms] flush_notifies [OF assms] by auto

theorem flush_removes_exactly_flagged_witness:
  "map fst (tx_consumers (fst (flush_unsubscribes (flag_unsubscribe ''a''
      (fst (subscribe ''b'' ''t2'' 2 2 (fst (subscribe ''a'' ''t1'' 1 1 (balancer_new 0))))))))) = [''b'']"
proof -
  let ?b = "flag_unsubscribe ''a''
      (fst (subscribe ''b'' ''t2'' 2 2 (fst (subscribe ''a'' ''t1'' 1 1 (balancer_new 0)))))"
  have "bal_inv ?b" by (simp add: mtx_inv)
  from flush_removes_exactly_flagged [OF this] show ?thesis
    by (simp add: flag_unsubscribe_def hm_map_values_def balancer_new_def)
qed

text \<open>
  The connected stake is kept up to date by the registry operations: every subscription
  recomputes it, and unsubscribing and flushing keep it equal to the sum of the registered
  consumers' stakes, which is the exact sum as long as it fits in 64 bits.
\<close>

theorem registry_keeps_connected_stake:
  fixes b :: balancer
  defines "exact \<equiv> \<lambda>b'. sum_list (map (\<lambda>(_, c). unat (tc_stake c)) (tx_consumers b')) < 2 ^ 64 \<longrightarrow>
      unat (total_connected_stake b') = sum_list (map (\<lambda>(_, c). unat (tc_stake c)) (tx_consumers b'))"
  shows "exact (fst (subscribe ident tok tx tu b)) \<and>
     (stake_synced b \<longrightarrow> exact (fst (unsubscribe ident tok b)) \<and> exact (fst (flush_unsubscribes b)))"
proof -
  have "exact b'" if "stake_synced b'" for b'
    using that by (simp add: exact_def stake_synced_def connected_stake_nat)
  then show ?thesis
    by (simp add: stake_synced_subscribe stake_synced_unsubscribe stake_synced_flush)
qed

theorem registry_keeps_connected_stake_witness:
  "unat (total_connected_stake (fst (subscribe ''v'' ''t'' 1 1
      (update_stake_weights [(''v'', 500)] (balancer_new 0))))) = 500"
  using registry_keeps_connected_stake [of "''v''" "''t''" 1 1
      "update_stake_weights [(''v'', 500)] (balancer_new 0)"]
  by (simp add: update_stake_weights_def balancer_new_def hm_map_values_def stake_of_def hm_get_def)

text \<open>
  C33. The running average of round-trip times. As long as the weighted sum fits in 64 bits and the
  sample counter does not wrap, recording a sample never panics, stores the rounded-down mean of
  the old average (with its weight) and the sample, counts the sample, keeps the result between
  the old average and the sample (and equal to the first sample), and touches no other entry.
\<close>

theorem update_rtt_average:
  fixes b :: balancer and ident :: string and v :: pb_rtt
  defines "s \<equiv> rtt_slot b ident (rt_ip v)"
  assumes "unat (rv_n s) + 1 < 2 ^ 64"
    and "unat (rv_n s) * unat (rv_rtt s) + unat (rt_rtt v) < 2 ^ 64"
  shows "\<exists>b'. update_rtt ident v b = Done b' \<and>
     (let s' = rtt_slot b' ident (rt_ip v) in
        unat (rv_n s') = unat (rv_n s) + 1 \<and>
        unat (rv_rtt s') = (unat (rv_n s) * unat (rv_rtt s) + unat (rt_rtt v)) div (unat (rv_n s) + 1) \<and>
        (if rv_n s = 0 then rv_rtt s' = rt_rtt v
         else min (unat (rv_rtt s)) (unat (rt_rtt v)) \<le> unat (rv_rtt s') \<and>
              unat (rv_rtt s') \<le> max (unat (rv_rtt s)) (unat (rt_rtt v)))) \<and>
     (\<forall>j ip. (j, ip) \<noteq> (ident, rt_ip v) \<longrightarrow> rtt_slot b' j ip = rtt_slot b j ip)"
proof -
  let ?n = "unat (rv_n s)" and ?a = "unat (rv_rtt s)" and ?v = "unat (rt_rtt v)"
  have n1: "unat (rv_n s + 1) = ?n + 1"
    using assms(2) by (subst unat_add_no_wrap) simp_all
  then have nz: "rv_n s + 1 \<noteq> 0" by (metis add_is_0 unat_0 zero_neq_one)
  have prod: "unat (rv_n s * rv_rtt s) = ?n * ?a"
    using assms(3) by (intro unat_mult_no_wrap) simp
  have mean: "unat ((rv_n s * rv_rtt s + rt_rtt v) div (rv_n s + 1)) = (?n * ?a + ?v) div (?n + 1)"
    using assms(3) by (simp add: unat_div n1 prod unat_add_no_wrap)
  obtain b' where upd: "update_rtt ident v b = Done b'"
    and slot: "\<And>j ip. rtt_slot b' j ip =
       (if j = ident \<and> ip = rt_ip v
        then \<lparr>rv_rtt = (rv_n s * rv_rtt s + rt_rtt v) div (rv_n s + 1), rv_n = rv_n s + 1\<rparr>
        else rtt_slot b j ip)"
    using update_rtt_slot [of b ident v] nz unfolding s_def Let_def by (metis outcome.inject(2))
  have "rv_rtt (rtt_slot b' ident (rt_ip v)) = rt_rtt v" if "rv_n s = 0"
    using that mean by (simp add: slot word_unat_eq_iff)
  moreover have "rv_n s \<noteq> 0 \<Longrightarrow> 0 < ?n" by (simp add: unat_gt_0)
  ultimately show ?thesis
    using upd average_between [of ?n ?a ?v] mean n1 by (auto simp: slot Let_def)
qed

theorem update_rtt_average_witness:
  "\<exists>b'. update_rtt ''v'' \<lparr>rt_ip = ''1.2.3.4'', rt_rtt = 9\<rparr> (balancer_new 0) = Done b' \<and>
     rv_rtt (rtt_slot b' ''v'' ''1.2.3.4'') = 9"
  using update_rtt_average [of "balancer_new 0" "''v''" "\<lparr>rt_ip = ''1.2.3.4'', rt_rtt = 9\<rparr>"]
  by (auto simp: rtt_slot_def balancer_new_def Let_def)

end
