(* ===== verification/Balancer_Pick.thy ===== *)
theory Balancer_Pick
  imports Balancer_Registry
begin

text \<open>
  The choice of consumers for a transaction: the stake-weighted sample and the distribution of
  the leaders' TPU addresses over the chosen consumers.
\<close>

section \<open>The sample\<close>

text \<open>The upper end of the interval of points that select one of the first \<open>i\<close> consumers.\<close>

definition cum_weight :: "(string, tx_consumer) hmap \<Rightarrow> nat \<Rightarrow> nat" where
  "cum_weight cs i = sum_list (map (\<lambda>(_, c). unat (tc_stake c) + 1) (take i cs))"

lemma cum_weight_0 [simp]: "cum_weight cs 0 = 0"
  by (simp add: cum_weight_def)

lemma cum_weight_Cons_Suc [simp]:
  "cum_weight ((k, c) # cs) (Suc i) = unat (tc_stake c) + 1 + cum_weight cs i"
  by (simp add: cum_weight_def)

lemma cum_weight_all:
  "cum_weight cs (length cs) = sum_list (map (\<lambda>(_, c). unat (tc_stake c)) cs) + length cs"
  by (induction cs) auto

lemma cum_weight_append:
  "cum_weight (cs @ ds) (length cs) = cum_weight cs (length cs)"
  by (simp add: cum_weight_def)

lemma cum_weight_mono: "i \<le> j \<Longrightarrow> cum_weight cs i \<le> cum_weight cs j"
proof (induction cs arbitrary: i j)
  case Nil
  then show ?case by (simp add: cum_weight_def)
next
  case (Cons e cs)
  obtain k c where "e = (k, c)" by fastforce
  with Cons show ?case by (cases i; cases j) auto
qed

lemma acc_step_no_wrap:
  assumes "unat acc + (unat s + 1 + rest) < 2 ^ 64"
  shows "unat (acc + (s + 1) :: u64) = unat acc + unat s + 1"
proof -
  have "unat (s + 1) = unat s + 1" using assms by (subst unat_add_no_wrap) simp_all
  then show ?thesis using assms by (subst unat_add_no_wrap) simp_all
qed

lemma sample_loop_hit:
  assumes "unat acc + cum_weight cs (length cs) < 2 ^ 64" and "i < length cs"
    and "unat acc + cum_weight cs i \<le> unat p" and "unat p < unat acc + cum_weight cs (Suc i)"
  shows "sample_loop p acc cs = Some (snd (cs ! i))"
  using assms
proof (induction cs arbitrary: acc i)
  case (Cons e cs)
  obtain k c where e: "e = (k, c)" by fastforce
  let ?acc = "acc + (tc_stake c + 1)"
  have acc: "unat ?acc = unat acc + unat (tc_stake c) + 1"
    using Cons.prems(1) by (intro acc_step_no_wrap) (simp add: e)
  show ?case
  proof (cases i)
    case 0
    with Cons.prems(4) acc have "p < ?acc" by (simp add: e word_less_nat_alt)
    with 0 show ?thesis by (simp add: e)
  next
    case (Suc j)
    with Cons.prems(3) acc have "\<not> p < ?acc" by (simp add: e word_less_nat_alt)
    moreover have "sample_loop p ?acc cs = Some (snd (cs ! j))"
      using Cons.prems Suc acc by (intro Cons.IH) (simp_all add: e)
    ultimately show ?thesis by (simp add: e Suc)
  qed
qed simp

lemma sample_loop_miss:
  assumes "unat acc + cum_weight cs (length cs) < 2 ^ 64"
    and "unat acc + cum_weight cs (length cs) \<le> unat p"
  shows "sample_loop p acc cs = None"
  using assms
proof (induction cs arbitrary: acc)
  case (Cons e cs)
  obtain k c where e: "e = (k, c)" by fastforce
  let ?acc = "acc + (tc_stake c + 1)"
  have acc: "unat ?acc = unat acc + unat (tc_stake c) + 1"
    using Cons.prems(1) by (intro acc_step_no_wrap) (simp add: e)
  with Cons.prems(2) have "\<not> p < ?acc" by (simp add: e word_less_nat_alt)
  moreover have "sample_loop p ?acc cs = None"
    using Cons.prems acc by (intro Cons.IH) (simp_all add: e)
  ultimately show ?case by (simp add: e)
qed simp

lemma cum_weight_locate:
  assumes "p < cum_weight cs (length cs)"
  shows "\<exists>i < length cs. cum_weight cs i \<le> p \<and> p < cum_weight cs (Suc i)"
proof -
  let ?I = "{i. i \<le> length cs \<and> cum_weight cs i \<le> p}"
  define i where "i = Max ?I"
  have fin: "finite ?I" "0 \<in> ?I" by simp_all
  then have i: "i \<in> ?I" unfolding i_def using Max_in by blast
  with assms have less: "i < length cs" by (cases "i = length cs") auto
  have "Suc i \<notin> ?I"
    using Max_ge [OF fin(1), of "Suc i"] unfolding i_def by (metis Suc_n_not_le_n)
  with less i show ?thesis by auto
qed

lemma sample_loop_in_set: "sample_loop p acc cs = Some c \<Longrightarrow> c \<in> snd ` set cs"
  by (induction p acc cs rule: sample_loop.induct) (auto simp: Let_def split: if_splits)

definition weights_fit :: "balancer \<Rightarrow> bool" where
  "weights_fit b \<longleftrightarrow> cum_weight (tx_consumers b) (length (tx_consumers b)) < 2 ^ 64"

lemma weights_fit_bounds:
  assumes "weights_fit b"
  shows "sum_list (map (\<lambda>(_, c). unat (tc_stake c)) (tx_consumers b)) < 2 ^ 64"
    and "length (tx_consumers b) < 2 ^ 64"
  using assms by (simp_all add: weights_fit_def cum_weight_all)

text \<open>The range handed to the generator is never empty, and a synchronised one is covered.\<close>

lemma total_weight_covered:
  assumes "stake_synced b" and "weights_fit b" and "total_weight b = Some w"
  shows "0 < w \<and> unat w \<le> cum_weight (tx_consumers b) (length (tx_consumers b))"
proof (cases "total_connected_stake b = 0")
  case True
  with assms have w: "w = usize_as_u64 (length (tx_consumers b))" "tx_consumers b \<noteq> []"
    by (auto simp: total_weight_def split: if_splits)
  with weights_fit_bounds(2) [OF assms(2)] have "unat w = length (tx_consumers b)"
    by (simp add: unat_usize_as_u64)
  with w(2) show ?thesis by (simp add: cum_weight_all word_less_nat_alt)
next
  case False
  with assms(3) have w: "w = total_connected_stake b" by (simp add: total_weight_def)
  with assms(1) connected_stake_nat [OF weights_fit_bounds(1) [OF assms(2)]]
  have "unat w = sum_list (map (\<lambda>(_, c). unat (tc_stake c)) (tx_consumers b))"
    by (simp add: stake_synced_def)
  moreover from False w have "0 < w" by (simp add: word_gt_0)
  ultimately show ?thesis by (simp add: cum_weight_all)
qed

lemma total_weight_None: "total_weight b = None \<longleftrightarrow> total_connected_stake b = 0 \<and> tx_consumers b = []"
  by (simp add: total_weight_def)

lemma sample_point:
  assumes "gen_range_ok gen_range" and "stake_synced b" and "weights_fit b" and "tx_consumers b \<noteq> []"
  shows "\<exists>p rng'. sample_consumer_stake_weighted gen_range b rng = (sample_loop p 0 (tx_consumers b), rng')
     \<and> unat p < cum_weight (tx_consumers b) (length (tx_consumers b))
     \<and> (total_connected_stake b \<noteq> 0 \<longrightarrow> p < total_connected_stake b)"
proof -
  obtain w where w: "total_weight b = Some w"
    using assms(4) total_weight_None [of b] by (cases "total_weight b") auto
  obtain p rng' where p: "gen_range rng w = (p, rng')" by fastforce
  from total_weight_covered [OF assms(2,3) w] have w0: "0 < w"
    and cov: "unat w \<le> cum_weight (tx_consumers b) (length (tx_consumers b))" by auto
  with assms(1) p have "p < w" unfolding gen_range_ok_def by (metis fst_conv)
  moreover from this cov have "unat p < cum_weight (tx_consumers b) (length (tx_consumers b))"
    by (simp add: word_less_nat_alt)
  ultimately show ?thesis
    using w p by (auto simp: sample_consumer_stake_weighted_def total_weight_def split: if_splits)
qed

lemma sample_succeeds:
  assumes "gen_range_ok gen_range" and "stake_synced b" and "weights_fit b" and "tx_consumers b \<noteq> []"
  shows "\<exists>c rng'. sample_consumer_stake_weighted gen_range b rng = (Some c, rng') \<and>
     c \<in> snd ` set (tx_consumers b)"
proof -
  from sample_point [OF assms] obtain p rng' where
    s: "sample_consumer_stake_weighted gen_range b rng = (sample_loop p 0 (tx_consumers b), rng')"
    and p: "unat p < cum_weight (tx_consumers b) (length (tx_consumers b))" by blast
  from cum_weight_locate [OF p] obtain i where
    i: "i < length (tx_consumers b)" "cum_weight (tx_consumers b) i \<le> unat p"
       "unat p < cum_weight (tx_consumers b) (Suc i)" by blast
  with assms(3) have "sample_loop p 0 (tx_consumers b) = Some (snd (tx_consumers b ! i))"
    by (intro sample_loop_hit) (simp_all add: weights_fit_def)
  with s i(1) show ?thesis by auto
qed

section \<open>Filling up and distributing\<close>

lemma fill_consumers_append:
  "\<exists>extra. fill_consumers gen_range b k rng cs = cs @ extra \<and> length extra \<le> k \<and>
     (\<forall>(c, info) \<in> set extra. info = [] \<and> c \<in> snd ` set (tx_consumers b))"
proof (induction k arbitrary: rng cs)
  case 0
  then show ?case by simp
next
  case (Suc k)
  obtain r rng' where s: "sample_consumer_stake_weighted gen_range b rng = (r, rng')" by fastforce
  show ?case
  proof (cases r)
    case None
    with s show ?thesis by simp
  next
    case (Some c)
    with s have c: "c \<in> snd ` set (tx_consumers b)"
      by (auto simp: sample_consumer_stake_weighted_def case_prod_beta
            split: option.splits dest: sample_loop_in_set)
    obtain extra where
      "fill_consumers gen_range b k rng' (cs @ [(c, [])]) = (cs @ [(c, [])]) @ extra"
      "length extra \<le> k" "\<forall>(c, info) \<in> set extra. info = [] \<and> c \<in> snd ` set (tx_consumers b)"
      using Suc.IH by metis
    with s Some c show ?thesis by (intro exI [of _ "(c, []) # extra"]) auto
  qed
qed

lemma fill_consumers_length:
  assumes "\<And>rng. \<exists>c rng'. sample_consumer_stake_weighted gen_range b rng = (Some c, rng')"
  shows "length (fill_consumers gen_range b k rng cs) = length cs + k"
proof (induction k arbitrary: rng cs)
  case (Suc k)
  from assms [of rng] Suc.IH show ?case by auto
qed simp

definition copies :: "leader_info \<Rightarrow> picks \<Rightarrow> nat" where
  "copies t ps = sum_list (map (\<lambda>(_, info). count_list info t) ps)"

lemma copies_append [simp]: "copies t (ps @ qs) = copies t ps + copies t qs"
  by (simp add: copies_def)

lemma push_tpu_simps [simp]:
  "length (push_tpu k t ps) = length ps"
  "map fst (push_tpu k t ps) = map fst ps"
  by (simp_all add: push_tpu_def map_update) (metis list_update_id map_update fst_conv nth_map list_update_beyond not_less)

lemma copies_push_tpu:
  "k < length ps \<Longrightarrow> copies t (push_tpu k u ps) = copies t ps + (if t = u then 1 else 0)"
proof (induction ps arbitrary: k)
  case (Cons p ps)
  then show ?case
    by (cases p; cases k) (auto simp: copies_def push_tpu_def)
qed simp

lemma push_tpu_mono:
  "t \<in> set (snd (ps ! i)) \<Longrightarrow> i < length ps \<Longrightarrow> t \<in> set (snd (push_tpu k u ps ! i))"
  by (cases "k = i") (simp_all add: push_tpu_def)

lemma push_tpu_at: "k < length ps \<Longrightarrow> t \<in> set (snd (push_tpu k t ps ! k))"
  by (simp add: push_tpu_def)

lemma push_copies_eq:
  "push_copies i t ps =
     push_tpu (Suc i mod length ps) t (push_tpu (i mod length ps) t ps)"
  by (simp add: push_copies_def N_COPIES_def upt_rec)

lemma push_copies_simps [simp]:
  "length (push_copies i t ps) = length ps"
  "map fst (push_copies i t ps) = map fst ps"
  by (simp_all add: push_copies_eq)

lemma copies_push_copies:
  "ps \<noteq> [] \<Longrightarrow> copies t (push_copies i u ps) = copies t ps + (if t = u then N_COPIES else 0)"
  by (simp add: push_copies_eq copies_push_tpu N_COPIES_def)

lemma push_copies_mono:
  "t \<in> set (snd (ps ! k)) \<Longrightarrow> k < length ps \<Longrightarrow> t \<in> set (snd (push_copies i u ps ! k))"
  by (simp add: push_copies_eq push_tpu_mono)

lemma push_copies_at:
  assumes "ps \<noteq> []"
  shows "t \<in> set (snd (push_copies i t ps ! (i mod length ps)))"
    and "t \<in> set (snd (push_copies i t ps ! (Suc i mod length ps)))"
  using assms by (simp_all add: push_copies_eq push_tpu_at push_tpu_mono)

lemma fold_push_simps [simp]:
  "length (fold (push_copies i) ts ps) = length ps"
  "map fst (fold (push_copies i) ts ps) = map fst ps"
  by (induction ts arbitrary: ps) simp_all

lemma fold_push_not_Nil [simp]: "fold (push_copies i) ts ps = [] \<longleftrightarrow> ps = []"
  by (metis fold_push_simps(1) length_0_conv)

lemma copies_fold_push:
  "ps \<noteq> [] \<Longrightarrow> copies t (fold (push_copies i) ts ps) = copies t ps + N_COPIES * count_list ts t"
proof (induction ts arbitrary: ps)
  case (Cons u ts)
  have "push_copies i u ps \<noteq> []" using Cons.prems by (metis length_0_conv push_copies_simps(1))
  with Cons show ?case by (simp add: copies_push_copies)
qed simp

lemma fold_push_mono:
  "t \<in> set (snd (ps ! k)) \<Longrightarrow> k < length ps \<Longrightarrow> t \<in> set (snd (fold (push_copies i) ts ps ! k))"
  by (induction ts arbitrary: ps) (simp_all add: push_copies_mono)

lemma fold_push_at:
  assumes "t \<in> set ts" and "ps \<noteq> []"
  shows "t \<in> set (snd (fold (push_copies i) ts ps ! (i mod length ps)))"
    and "t \<in> set (snd (fold (push_copies i) ts ps ! (Suc i mod length ps)))"
proof -
  from assms(1) obtain us vs where ts: "ts = us @ t # vs" by (meson split_list)
  let ?ps = "fold (push_copies i) us ps"
  from assms(2) have "?ps \<noteq> []" by simp
  from push_copies_at [OF this, of t i] assms(2)
  show "t \<in> set (snd (fold (push_copies i) ts ps ! (i mod length ps)))"
    and "t \<in> set (snd (fold (push_copies i) ts ps ! (Suc i mod length ps)))"
    by (simp_all add: ts fold_push_mono)
qed

lemma distribute_simps [simp]:
  "length (distribute i tss ps) = length ps"
  "map fst (distribute i tss ps) = map fst ps"
  by (induction i tss ps rule: distribute.induct) simp_all

lemma copies_distribute:
  "ps \<noteq> [] \<Longrightarrow> copies t (distribute i tss ps) = copies t ps + N_COPIES * count_list (concat tss) t"
  by (induction i tss ps rule: distribute.induct)
     (simp_all add: copies_fold_push algebra_simps)

lemma distribute_mono:
  "t \<in> set (snd (ps ! k)) \<Longrightarrow> k < length ps \<Longrightarrow> t \<in> set (snd (distribute i tss ps ! k))"
  by (induction i tss ps rule: distribute.induct) (simp_all add: fold_push_mono)

lemma distribute_at:
  "t \<in> set (concat tss) \<Longrightarrow> ps \<noteq> [] \<Longrightarrow>
     \<exists>j. t \<in> set (snd (distribute i tss ps ! (j mod length ps))) \<and>
         t \<in> set (snd (distribute i tss ps ! (Suc j mod length ps)))"
proof (induction i tss ps rule: distribute.induct)
  case (1 i ps)
  then show ?case by simp
next
  case (2 i ts tss ps)
  show ?case
  proof (cases "t \<in> set ts")
    case True
    with fold_push_at [OF True "2.prems"(2), of i] "2.prems"(2) show ?thesis
      by (intro exI [of _ i]) (simp add: distribute_mono)
  next
    case False
    with "2.IH" "2.prems" show ?thesis by simp
  qed
qed

section \<open>The chosen consumers\<close>

lemma count_list_concat_chunks: "0 < n \<Longrightarrow> count_list (concat (chunks n xs)) t = count_list xs t"
  by (simp add: concat_chunks)

lemma leader_consumers_iff:
  "(c, info) \<in> set (leader_consumers b) \<longleftrightarrow>
     (\<exists>ident tpu. (ident, c) \<in> set (tx_consumers b) \<and> hm_get (leaders b) ident = Some tpu \<and> info = [tpu])"
  by (force simp: leader_consumers_def set_map_filter)

lemma leader_consumers_length:
  assumes "hm_ok (tx_consumers b)"
  shows "length (leader_consumers b) \<le> length (leaders b)"
proof -
  let ?ks = "filter (\<lambda>k. hm_get (leaders b) k \<noteq> None) (map fst (tx_consumers b))"
  have "length (leader_consumers b) = length ?ks"
    unfolding leader_consumers_def List.map_filter_def
    by (simp add: filter_map comp_def case_prod_unfold)
  also have "\<dots> = card (set ?ks)"
    using assms by (intro distinct_card [symmetric]) (simp add: hm_ok_def)
  also have "set ?ks \<subseteq> set (map fst (leaders b))"
    using hm_get_None_iff [of "leaders b"] by auto
  then have "card (set ?ks) \<le> card (set (map fst (leaders b)))" by (intro card_mono) simp_all
  also have "\<dots> \<le> length (leaders b)" by (metis card_length length_map)
  finally show ?thesis .
qed

text \<open>The consumers before any TPU is handed out.\<close>

definition chosen :: "('g \<Rightarrow> u64 \<Rightarrow> u64 \<times> 'g) \<Rightarrow> 'g \<Rightarrow> balancer \<Rightarrow> picks" where
  "chosen gen_range rng b =
     fill_consumers gen_range b (N_CONSUMERS - min (length (leader_consumers b)) N_CONSUMERS) rng
       (leader_consumers b)"

lemma pick_consumers_chosen:
  "pick_consumers gen_range rng b =
     (let cs = chosen gen_range rng b; n = length cs; chunk_len = length (leader_tpus b) div n
      in if cs \<noteq> [] \<and> leader_tpus b \<noteq> []
         then if chunk_len = 0 then Panic ''chunk size must be non-zero''
              else Done (distribute 0 (chunks chunk_len (leader_tpus b)) cs)
         else Done cs)"
  by (simp add: pick_consumers_def chosen_def Let_def)

lemma chosen_append:
  "\<exists>extra. chosen gen_range rng b = leader_consumers b @ extra \<and>
     (\<forall>(c, info) \<in> set extra. info = [] \<and> c \<in> snd ` set (tx_consumers b))"
  using fill_consumers_append unfolding chosen_def by metis

lemma copies_chosen: "copies t (chosen gen_range rng b) = copies t (leader_consumers b)"
proof -
  obtain extra where e: "chosen gen_range rng b = leader_consumers b @ extra"
    and nil: "\<forall>(c, info) \<in> set extra. info = [] \<and> c \<in> snd ` set (tx_consumers b)"
    using chosen_append by metis
  from nil have "copies t extra = 0"
    by (induction extra) (auto simp: copies_def)
  with e show ?thesis by simp
qed

lemma chosen_connected:
  assumes "c \<in> fst ` set (chosen gen_range rng b)"
  shows "c \<in> snd ` set (tx_consumers b)"
proof -
  obtain extra where "chosen gen_range rng b = leader_consumers b @ extra"
    and "\<forall>(c, info) \<in> set extra. info = [] \<and> c \<in> snd ` set (tx_consumers b)"
    using chosen_append by metis
  with assms show ?thesis by (force simp: leader_consumers_iff)
qed

lemma pick_consumers_fst:
  "pick_consumers gen_range rng b = Done ps \<Longrightarrow> map fst ps = map fst (chosen gen_range rng b)"
  by (auto simp: pick_consumers_chosen Let_def split: if_splits)

lemma chosen_length:
  assumes "gen_range_ok gen_range" and "stake_synced b" and "weights_fit b" and "tx_consumers b \<noteq> []"
  shows "length (chosen gen_range rng b) = max N_CONSUMERS (length (leader_consumers b))"
  unfolding chosen_def
  by (subst fill_consumers_length) (use sample_succeeds [OF assms] in \<open>blast | simp\<close>)+

lemma chunk_len_zero_iff:
  assumes "bal_inv b" and "gen_range_ok gen_range" and "stake_synced b" and "weights_fit b"
    and "tx_consumers b \<noteq> []" and "leader_tpus b = hm_values (leaders b)"
  shows "chosen gen_range rng b \<noteq> []"
    and "length (leader_tpus b) div length (chosen gen_range rng b) = 0 \<longleftrightarrow>
      length (leader_tpus b) < N_CONSUMERS"
proof -
  have n: "length (chosen gen_range rng b) = max N_CONSUMERS (length (leader_consumers b))"
    by (rule chosen_length [OF assms(2-5)])
  then show pos: "chosen gen_range rng b \<noteq> []" by (auto simp: N_CONSUMERS_def)
  have "length (leader_consumers b) \<le> length (leader_tpus b)"
    using leader_consumers_length [OF bal_invD(1) [OF assms(1)]] assms(6) by (simp add: hm_values_def)
  then show "length (leader_tpus b) div length (chosen gen_range rng b) = 0 \<longleftrightarrow>
      length (leader_tpus b) < N_CONSUMERS"
    using n pos by (auto simp: div_eq_0_iff)
qed

lemma pick_consumers_copies:
  assumes "pick_consumers gen_range rng b = Done ps" and "ps \<noteq> []"
  shows "copies t ps = copies t (leader_consumers b) + N_COPIES * count_list (leader_tpus b) t"
proof -
  let ?cs = "chosen gen_range rng b"
  have ne: "?cs \<noteq> []" using pick_consumers_fst [OF assms(1)] assms(2) by auto
  show ?thesis
  proof (cases "leader_tpus b = []")
    case True
    with assms(1) have "ps = ?cs" by (simp add: pick_consumers_chosen Let_def)
    with True show ?thesis by (simp add: copies_chosen)
  next
    case False
    with assms(1) ne show ?thesis
      by (auto simp: pick_consumers_chosen Let_def copies_distribute copies_chosen count_list_concat_chunks
          split: if_splits)
  qed
qed

lemma copies_pos: "0 < copies t ps \<Longrightarrow> \<exists>(c, info) \<in> set ps. t \<in> set info"
  by (induction ps) (force simp: copies_def count_list_0_iff)+

lemma pick_consumers_reaches:
  assumes "pick_consumers gen_range rng b = Done ps" and "ps \<noteq> []" and "t \<in> set (leader_tpus b)"
  shows "\<exists>(c, info) \<in> set ps. t \<in> set info"
proof (rule copies_pos)
  from assms(3) have "0 < count_list (leader_tpus b) t" by (metis count_list_0_iff gr0I)
  then show "0 < copies t ps" by (simp add: pick_consumers_copies [OF assms(1,2)] N_COPIES_def)
qed

section \<open>Concrete states for the witnesses\<close>

text \<open>Two clients, the first with a stake of 5 SOL and the second unknown to the stake table.\<close>

definition two_clients :: balancer where
  "two_clients =
     fst (subscribe ''b'' ''t2'' 2 2
       (fst (subscribe ''a'' ''t1'' 1 1 (update_stake_weights [(''a'', 5)] (balancer_new 0)))))"

lemma two_clients_consumers:
  "tx_consumers two_clients =
     [(''a'', \<lparr>tc_identity = ''a'', tc_stake = 5, tc_tx = 1, tc_token = ''t1'',
              tc_tx_unsubscribe = Some 1, tc_do_unsubscribe = False\<rparr>),
      (''b'', \<lparr>tc_identity = ''b'', tc_stake = 1, tc_tx = 2, tc_token = ''t2'',
              tc_tx_unsubscribe = Some 2, tc_do_unsubscribe = False\<rparr>)]"
  by (simp add: two_clients_def balancer_new_def update_stake_weights_def stake_of_def hm_get_Cons
        hm_map_values_def)

lemma two_clients_facts:
  "bal_inv two_clients" "stake_synced two_clients" "weights_fit two_clients"
  "total_connected_stake two_clients = 6" "tx_consumers two_clients \<noteq> []"
proof -
  show "bal_inv two_clients" by (simp add: two_clients_def mtx_inv)
  show synced: "stake_synced two_clients" by (simp add: two_clients_def stake_synced_subscribe)
  show "weights_fit two_clients"
    by (simp add: weights_fit_def two_clients_consumers cum_weight_def)
  show "total_connected_stake two_clients = 6"
    using synced by (simp add: stake_synced_def connected_stake_def two_clients_consumers)
  show "tx_consumers two_clients \<noteq> []" by (simp add: two_clients_consumers)
qed

definition leader_at :: "string \<Rightarrow> leader_info" where
  "leader_at ident =
     \<lparr>li_identity = ident, li_tpu = ident @ '':8009'', li_dc_full_city = ''c'', li_is_jito = False\<rparr>"

text \<open>The two clients with the given leaders, set as the updater sets them.\<close>

definition with_leaders :: "string list \<Rightarrow> balancer" where
  "with_leaders idents =
     set_leaders (map leader_at idents) (map (\<lambda>i. (i, leader_at i)) idents) two_clients"

lemma with_leaders_facts:
  "bal_inv (with_leaders idents)" "stake_synced (with_leaders idents)"
  "weights_fit (with_leaders idents)" "tx_consumers (with_leaders idents) \<noteq> []"
  "leader_tpus (with_leaders idents) = hm_values (leaders (with_leaders idents))"
  "leader_tpus (with_leaders idents) = map leader_at idents"
  using two_clients_facts
  by (simp_all add: with_leaders_def mtx_inv)
     (simp_all add: set_leaders_def stake_synced_def connected_stake_def weights_fit_def hm_values_def)

text \<open>A generator that always draws the largest point.\<close>

definition gen_last :: "unit \<Rightarrow> u64 \<Rightarrow> u64 \<times> unit" where
  "gen_last g n = (n - 1, g)"

lemma gen_last_ok: "gen_range_ok gen_last"
  unfolding gen_range_ok_def gen_last_def
  by (simp add: word_less_nat_alt [of "_ - 1"] measure_unat word_gt_0)

lemma with_leaders_pick:
  assumes "N_CONSUMERS \<le> length idents"
  shows "\<exists>ps. pick_consumers gen_last () (with_leaders idents) = Done ps \<and> ps \<noteq> []"
proof -
  note ch = chunk_len_zero_iff [where b = "with_leaders idents" and gen_range = gen_last and rng = "()",
      OF with_leaders_facts(1) gen_last_ok with_leaders_facts(2-5)]
  then have "\<exists>ps. pick_consumers gen_last () (with_leaders idents) = Done ps"
    using assms by (auto simp: pick_consumers_chosen Let_def with_leaders_facts(6))
  then obtain ps where ps: "pick_consumers gen_last () (with_leaders idents) = Done ps" by blast
  from pick_consumers_fst [OF ps] ch(1) have "ps \<noteq> []" by auto
  with ps show ?thesis by blast
qed

section \<open>Properties\<close>

text \<open>
  The sample never fails while a client is connected: if the connected stake is in step with
  the registry and the weights fit in 64 bits, every draw of a generator that respects its range
  yields a consumer of the registry.
\<close>

theorem sample_finds_connected_consumer:
  assumes "gen_range_ok gen_range" and "stake_synced b" and "weights_fit b" and "tx_consumers b \<noteq> []"
  shows "\<exists>ident c rng'. (ident, c) \<in> set (tx_consumers b) \<and>
     sample_consumer_stake_weighted gen_range b rng = (Some c, rng')"
  using sample_succeeds [OF assms] by force

theorem sample_finds_connected_consumer_witness:
  "\<exists>ident c rng'. (ident, c) \<in> set (tx_consumers two_clients) \<and>
     sample_consumer_stake_weighted gen_last two_clients () = (Some c, rng')"
  using sample_finds_connected_consumer [OF gen_last_ok two_clients_facts(2,3,5)] .

text \<open>
  What the weighted scan computes. With weights that fit in 64 bits, the consumer at position
  \<open>i\<close> of the iteration order is selected exactly by the points of an interval of length
  \<open>stake + 1\<close>, the intervals follow each other without gaps from 0, and every point beyond the
  last interval selects nobody.
\<close>

theorem sample_selects_by_interval:
  assumes "weights_fit b"
  shows "(\<forall>i < length (tx_consumers b).
       cum_weight (tx_consumers b) i \<le> unat p \<and> unat p < cum_weight (tx_consumers b) (Suc i) \<longrightarrow>
       sample_loop p 0 (tx_consumers b) = Some (snd (tx_consumers b ! i)) \<and>
       cum_weight (tx_consumers b) (Suc i) =
         cum_weight (tx_consumers b) i + unat (tc_stake (snd (tx_consumers b ! i))) + 1) \<and>
     (sample_loop p 0 (tx_consumers b) = None \<longleftrightarrow>
        cum_weight (tx_consumers b) (length (tx_consumers b)) \<le> unat p)"
proof -
  let ?cs = "tx_consumers b"
  have hit: "sample_loop p 0 ?cs = Some (snd (?cs ! i))"
    if "i < length ?cs" "cum_weight ?cs i \<le> unat p" "unat p < cum_weight ?cs (Suc i)" for i
    using assms that by (intro sample_loop_hit) (simp_all add: weights_fit_def)
  have step: "cum_weight ?cs (Suc i) = cum_weight ?cs i + unat (tc_stake (snd (?cs ! i))) + 1"
    if "i < length ?cs" for i
    using that by (simp add: cum_weight_def take_Suc_conv_app_nth case_prod_unfold)
  have "sample_loop p 0 ?cs = None \<longleftrightarrow> cum_weight ?cs (length ?cs) \<le> unat p"
  proof
    assume none: "sample_loop p 0 ?cs = None"
    show "cum_weight ?cs (length ?cs) \<le> unat p"
    proof (rule ccontr)
      assume "\<not> cum_weight ?cs (length ?cs) \<le> unat p"
      then have "unat p < cum_weight ?cs (length ?cs)" by simp
      from cum_weight_locate [OF this] hit none show False by force
    qed
  next
    assume "cum_weight ?cs (length ?cs) \<le> unat p"
    with assms show "sample_loop p 0 ?cs = None"
      by (intro sample_loop_miss) (simp_all add: weights_fit_def)
  qed
  with hit step show ?thesis by blast
qed

theorem sample_selects_by_interval_witness:
  "sample_loop 6 0 (tx_consumers two_clients) = Some (snd (tx_consumers two_clients ! 1))"
  using sample_selects_by_interval [OF two_clients_facts(3), of 6]
  by (auto simp: two_clients_consumers cum_weight_def)

text \<open>
  C37. The last consumer of the iteration order starves. The draw ranges over the sum of the
  stakes, while the scan gives every consumer \<open>stake + 1\<close> points, so a last consumer whose
  stake does not exceed the number of consumers before it is never sampled, whatever the
  generator draws: the sample always falls on one of the others.
\<close>

theorem last_consumer_starves:
  assumes "gen_range_ok gen_range" and "stake_synced b" and "weights_fit b"
    and "total_connected_stake b \<noteq> 0"
    and "tx_consumers b = cs @ [(ident, c)]" and "unat (tc_stake c) \<le> length cs"
  shows "\<exists>c' rng'. sample_consumer_stake_weighted gen_range b rng = (Some c', rng') \<and>
     c' \<in> snd ` set cs"
proof -
  have ne: "tx_consumers b \<noteq> []" using assms(5) by simp
  from sample_point [OF assms(1-3) ne] assms(4) obtain p rng' where
    s: "sample_consumer_stake_weighted gen_range b rng = (sample_loop p 0 (tx_consumers b), rng')"
    and p: "p < total_connected_stake b" by blast
  have total: "unat (total_connected_stake b) =
      sum_list (map (\<lambda>(_, c). unat (tc_stake c)) cs) + unat (tc_stake c)"
    using assms(2) connected_stake_nat [OF weights_fit_bounds(1) [OF assms(3)]]
    by (simp add: stake_synced_def assms(5))
  with p assms(6) have "unat p < cum_weight cs (length cs)"
    by (simp add: cum_weight_all word_less_nat_alt)
  from cum_weight_locate [OF this] obtain i where i: "i < length cs"
    and "cum_weight cs i \<le> unat p" "unat p < cum_weight cs (Suc i)" by blast
  then have "cum_weight (tx_consumers b) i \<le> unat p" "unat p < cum_weight (tx_consumers b) (Suc i)"
    by (simp_all add: assms(5) cum_weight_def)
  with i assms(3) have "sample_loop p 0 (tx_consumers b) = Some (snd (tx_consumers b ! i))"
    by (intro sample_loop_hit) (simp_all add: weights_fit_def assms(5))
  with s i show ?thesis by (auto simp: assms(5) nth_append)
qed

theorem last_consumer_starves_witness:
  "\<exists>c' rng'. sample_consumer_stake_weighted gen_last two_clients () = (Some c', rng') \<and>
     tc_identity c' = ''a''"
  using last_consumer_starves [OF gen_last_ok two_clients_facts(2,3), of
      "[tx_consumers two_clients ! 0]" "''b''" "snd (tx_consumers two_clients ! 1)" "()"]
    two_clients_facts(4)
  by (auto simp: two_clients_consumers)

text \<open>
  C38. A refresh of the stake table leaves the connected stake stale: \<open>update_stake_weights\<close>
  changes the stakes of the connected consumers but not their total. If the stakes shrink so far
  that the old total exceeds the new weights, a draw beyond the weights selects nobody although
  clients are connected.
\<close>

theorem stale_total_loses_sample:
  fixes b :: balancer and weights :: "(string, u64) hmap"
  defines "b' \<equiv> update_stake_weights weights b"
  assumes "weights_fit b'" and "total_connected_stake b \<noteq> 0"
    and "gen_range rng (total_connected_stake b) = (p, rng')"
    and "cum_weight (tx_consumers b') (length (tx_consumers b')) \<le> unat p"
  shows "sample_consumer_stake_weighted gen_range b' rng = (None, rng') \<and>
     length (tx_consumers b') = length (tx_consumers b)"
proof -
  have total: "total_connected_stake b' = total_connected_stake b"
    by (simp add: b'_def update_stake_weights_def)
  have "sample_loop p 0 (tx_consumers b') = None"
    using assms(2,5) by (intro sample_loop_miss) (simp_all add: weights_fit_def)
  with assms(3,4) show ?thesis
    by (simp add: sample_consumer_stake_weighted_def total_weight_def total)
       (simp add: b'_def update_stake_weights_def hm_map_values_def)
qed

theorem stale_total_loses_sample_witness:
  "sample_consumer_stake_weighted gen_last (update_stake_weights [(''a'', 1), (''b'', 1)] two_clients) ()
     = (None, ()) \<and> length (tx_consumers (update_stake_weights [(''a'', 1), (''b'', 1)] two_clients)) = 2"
proof -
  let ?w = "[(''a'', 1), (''b'', 1)] :: (string, u64) hmap"
  have cs: "map (\<lambda>(_, c). tc_stake c) (tx_consumers (update_stake_weights ?w two_clients)) = [1, 1]"
    by (simp add: update_stake_weights_def two_clients_consumers hm_map_values_def stake_of_def hm_get_Cons)
  have cum: "cum_weight (tx_consumers (update_stake_weights ?w two_clients))
      (length (tx_consumers (update_stake_weights ?w two_clients))) = 4"
    by (simp add: cum_weight_def update_stake_weights_def two_clients_consumers hm_map_values_def
          stake_of_def hm_get_Cons)
  have "gen_last () (total_connected_stake two_clients) = (5, ())"
    by (simp add: gen_last_def two_clients_facts(4))
  with stale_total_loses_sample [where gen_range = gen_last and b = two_clients and weights = ?w
      and rng = "()" and p = 5 and rng' = "()"] cum two_clients_facts(4)
  show ?thesis by (simp add: weights_fit_def two_clients_consumers)
qed

text \<open>
  When choosing consumers panics. With a sample that cannot fail and leaders set from one map
  (as the updater does), the choice panics, and so ends the server, exactly when there are leaders
  but fewer of them than \<open>N_CONSUMERS\<close>: the chunk length \<open>leader_tpus.len() / n\<close> is 0 then,
  and \<^verbatim>\<open>chunks(0)\<close> panics.
\<close>

theorem pick_consumers_panics_iff:
  assumes "bal_inv b" and "gen_range_ok gen_range" and "stake_synced b" and "weights_fit b"
    and "tx_consumers b \<noteq> []" and "leader_tpus b = hm_values (leaders b)"
  shows "(\<exists>e. pick_consumers gen_range rng b = Panic e) \<longleftrightarrow>
     0 < length (leader_tpus b) \<and> length (leader_tpus b) < N_CONSUMERS"
  using chunk_len_zero_iff [OF assms] by (auto simp: pick_consumers_chosen Let_def)

theorem pick_consumers_panics_iff_witness:
  "\<exists>e. pick_consumers gen_last () (with_leaders [''1.2.3.4'', ''1.2.3.5'']) = Panic e"
  using pick_consumers_panics_iff [OF with_leaders_facts(1) gen_last_ok with_leaders_facts(2-5)]
  by (simp add: with_leaders_facts(6) N_CONSUMERS_def)

text \<open>
  C5. Every leader is covered. When consumers are chosen, each TPU address of the leader list is
  handed out \<open>N_COPIES\<close> times (on top of the address a connected leader is given for
  itself), and with at least two chosen consumers it reaches two different positions of the
  choice. Nobody but the connected consumers is chosen.
\<close>

theorem pick_consumers_covers_leaders:
  assumes "pick_consumers gen_range rng b = Done ps" and "ps \<noteq> []"
  shows "(\<forall>t. copies t ps = copies t (leader_consumers b) + N_COPIES * count_list (leader_tpus b) t) \<and>
     (\<forall>t \<in> set (leader_tpus b). 2 \<le> length ps \<longrightarrow>
        (\<exists>i j. i \<noteq> j \<and> i < length ps \<and> j < length ps \<and>
           t \<in> set (snd (ps ! i)) \<and> t \<in> set (snd (ps ! j)))) \<and>
     fst ` set ps \<subseteq> snd ` set (tx_consumers b)"
proof -
  let ?cs = "chosen gen_range rng b"
  let ?k = "length (leader_tpus b) div length ?cs"
  have fst_eq: "map fst ps = map fst ?cs" by (rule pick_consumers_fst [OF assms(1)])
  then have len: "length ps = length ?cs" by (metis length_map)
  with assms(2) have ne: "?cs \<noteq> []" by auto
  show ?thesis
  proof (cases "leader_tpus b = []")
    case True
    with assms(1) have "ps = ?cs" by (simp add: pick_consumers_chosen Let_def)
    with True show ?thesis by (auto simp: copies_chosen intro: chosen_connected)
  next
    case False
    with assms(1) ne have k: "0 < ?k" and ps: "ps = distribute 0 (chunks ?k (leader_tpus b)) ?cs"
      by (auto simp: pick_consumers_chosen Let_def split: if_splits)
    have "\<forall>t. copies t ps = copies t (leader_consumers b) + N_COPIES * count_list (leader_tpus b) t"
      using pick_consumers_copies [OF assms] by blast
    moreover have "\<exists>i j. i \<noteq> j \<and> i < length ps \<and> j < length ps \<and>
        t \<in> set (snd (ps ! i)) \<and> t \<in> set (snd (ps ! j))"
      if t: "t \<in> set (leader_tpus b)" and two: "2 \<le> length ps" for t
    proof -
      from t k have "t \<in> set (concat (chunks ?k (leader_tpus b)))" by (simp add: concat_chunks)
      from distribute_at [OF this ne, of 0] obtain m where
        m: "t \<in> set (snd (ps ! (m mod length ?cs)))" "t \<in> set (snd (ps ! (Suc m mod length ?cs)))"
        unfolding ps by blast
      have "m mod length ?cs \<noteq> Suc m mod length ?cs"
        using two len by (simp add: mod_Suc)
      moreover have "m mod length ?cs < length ps" "Suc m mod length ?cs < length ps"
        using ne len by simp_all
      ultimately show ?thesis using m by blast
    qed
    moreover have "fst ` set ps \<subseteq> snd ` set (tx_consumers b)"
      using chosen_connected fst_eq by (metis list.set_map subsetI)
    ultimately show ?thesis by blast
  qed
qed

theorem pick_consumers_covers_leaders_witness:
  "\<exists>ps. pick_consumers gen_last () (with_leaders [''x'', ''y'', ''z'']) = Done ps \<and>
     N_COPIES \<le> copies (leader_at ''x'') ps"
proof -
  obtain ps where ps: "pick_consumers gen_last () (with_leaders [''x'', ''y'', ''z'']) = Done ps" "ps \<noteq> []"
    using with_leaders_pick [of "[''x'', ''y'', ''z'']"] by (auto simp: N_CONSUMERS_def)
  with pick_consumers_covers_leaders [OF ps] show ?thesis
    by (auto simp: with_leaders_facts(6))
qed

text \<open>
  C32. Connected leaders are always used. If the choice succeeds, every connected consumer that is
  itself an upcoming leader is among the chosen ones with its own TPU address, and the choice has
  \<open>N_CONSUMERS\<close> entries, or one per connected leader if there are more of those.
\<close>

theorem pick_consumers_uses_connected_leaders:
  assumes "gen_range_ok gen_range" and "stake_synced b" and "weights_fit b" and "tx_consumers b \<noteq> []"
    and "pick_consumers gen_range rng b = Done ps"
  shows "length ps = max N_CONSUMERS (length (leader_consumers b)) \<and>
     (\<forall>ident c tpu. (ident, c) \<in> set (tx_consumers b) \<and> hm_get (leaders b) ident = Some tpu \<longrightarrow>
        (\<exists>info. (c, info) \<in> set ps \<and> tpu \<in> set info))"
proof -
  let ?cs = "chosen gen_range rng b"
  have fst_eq: "map fst ps = map fst ?cs" by (rule pick_consumers_fst [OF assms(5)])
  then have len: "length ps = length ?cs" by (metis length_map)
  have "\<exists>info. (c, info) \<in> set ps \<and> tpu \<in> set info"
    if "(ident, c) \<in> set (tx_consumers b)" "hm_get (leaders b) ident = Some tpu" for ident c tpu
  proof -
    from that have "(c, [tpu]) \<in> set (leader_consumers b)" by (auto simp: leader_consumers_iff)
    moreover obtain extra where "?cs = leader_consumers b @ extra" using chosen_append by metis
    ultimately obtain i where i: "i < length ?cs" "?cs ! i = (c, [tpu])"
      by (metis in_set_conv_nth Un_iff set_append)
    have "tpu \<in> set (snd (ps ! i))"
      using assms(5) i by (auto simp: pick_consumers_chosen Let_def distribute_mono split: if_splits)
    moreover have "fst (ps ! i) = c"
      using i len fst_eq by (metis fst_conv nth_map)
    ultimately show ?thesis using i len by (metis nth_mem prod.collapse)
  qed
  moreover have "length ps = max N_CONSUMERS (length (leader_consumers b))"
    using len chosen_length [OF assms(1-4)] by simp
  ultimately show ?thesis by blast
qed

theorem pick_consumers_uses_connected_leaders_witness:
  "\<exists>ps c info. pick_consumers gen_last () (with_leaders [''a'', ''y'', ''z'']) = Done ps \<and>
     tc_identity c = ''a'' \<and> (c, info) \<in> set ps \<and> leader_at ''a'' \<in> set info"
proof -
  let ?b = "with_leaders [''a'', ''y'', ''z'']" and ?c = "snd (tx_consumers two_clients ! 0)"
  obtain ps where ps: "pick_consumers gen_last () ?b = Done ps"
    using with_leaders_pick [of "[''a'', ''y'', ''z'']"] by (auto simp: N_CONSUMERS_def)
  have "(''a'', ?c) \<in> set (tx_consumers ?b)" "hm_get (leaders ?b) ''a'' = Some (leader_at ''a'')"
    by (simp_all add: with_leaders_def set_leaders_def two_clients_consumers hm_get_def)
  with pick_consumers_uses_connected_leaders [OF gen_last_ok with_leaders_facts(2-4) ps]
  obtain info where "(?c, info) \<in> set ps" "leader_at ''a'' \<in> set info" by blast
  moreover have "tc_identity ?c = ''a''" by (simp add: two_clients_consumers)
  ultimately show ?thesis using ps by blast
qed

end
