(* ===== verification/Balancer_Publish.thy ===== *)
theory Balancer_Publish
  imports Balancer_Pick
begin

text \<open>
  Publication of a transaction to the chosen consumers, the updater task, and the balancer as a
  machine: every reachable state satisfies the invariant, whatever the order of the operations and
  whatever iteration order the hash maps take.
\<close>

section \<open>Flags\<close>

lemma flag_fields [simp]:
  "stake_weights (flag_unsubscribe ident b) = stake_weights b"
  "total_connected_stake (flag_unsubscribe ident b) = total_connected_stake b"
  "leaders (flag_unsubscribe ident b) = leaders b"
  "leader_tpus (flag_unsubscribe ident b) = leader_tpus b"
  "rtt_values (flag_unsubscribe ident b) = rtt_values b"
  "watcher_inbox (flag_unsubscribe ident b) = watcher_inbox b"
  by (simp_all add: flag_unsubscribe_def)

lemma hm_get_flag:
  "hm_get (tx_consumers (flag_unsubscribe ident b)) k =
     map_option (\<lambda>c. if k = ident then c\<lparr>tc_do_unsubscribe := True\<rparr> else c) (hm_get (tx_consumers b) k)"
  by (simp add: flag_unsubscribe_def)

lemma owner_flag [simp]: "owner (flag_unsubscribe ident b) = owner b"
  by (auto simp: owner_def hm_get_flag fun_eq_iff option.map_comp intro!: option.map_cong0)

definition flagged :: "balancer \<Rightarrow> string \<Rightarrow> bool" where
  "flagged b ident \<longleftrightarrow> (\<exists>c. hm_get (tx_consumers b) ident = Some c \<and> tc_do_unsubscribe c)"

lemma flagged_flag:
  "flagged (flag_unsubscribe ident b) k \<longleftrightarrow> flagged b k \<or> k = ident \<and> owner b k \<noteq> None"
  by (cases "hm_get (tx_consumers b) k") (auto simp: flagged_def hm_get_flag owner_def)

lemma fold_flag_fields [simp]:
  "stake_weights (fold flag_unsubscribe ids b) = stake_weights b"
  "total_connected_stake (fold flag_unsubscribe ids b) = total_connected_stake b"
  "leaders (fold flag_unsubscribe ids b) = leaders b"
  "leader_tpus (fold flag_unsubscribe ids b) = leader_tpus b"
  "rtt_values (fold flag_unsubscribe ids b) = rtt_values b"
  "watcher_inbox (fold flag_unsubscribe ids b) = watcher_inbox b"
  "owner (fold flag_unsubscribe ids b) = owner b"
  by (induction ids arbitrary: b) simp_all

lemma flagged_fold:
  "flagged (fold flag_unsubscribe ids b) k \<longleftrightarrow> flagged b k \<or> k \<in> set ids \<and> owner b k \<noteq> None"
  by (induction ids arbitrary: b) (auto simp: flagged_flag)

lemma bal_inv_fold_flag: "bal_inv b \<Longrightarrow> bal_inv (fold flag_unsubscribe ids b)"
  by (induction ids arbitrary: b) (simp_all add: bal_inv_flag)

lemma stake_synced_fold_flag [simp]: "stake_synced (fold flag_unsubscribe ids b) \<longleftrightarrow> stake_synced b"
  by (induction ids arbitrary: b) simp_all

lemma owner_flush:
  assumes "bal_inv b"
  shows "owner (fst (flush_unsubscribes b)) = (\<lambda>ident. if flagged b ident then None else owner b ident)"
proof (rule ext)
  fix ident
  have "owner (fst (flush_unsubscribes b)) ident =
      map_option tc_token (hm_get (filter (\<lambda>(_, c). \<not> tc_do_unsubscribe c) (tx_consumers b)) ident)"
    by (simp add: owner_def flush_unsubscribes_filter [OF assms])
  also have "hm_get (filter (\<lambda>(_, c). \<not> tc_do_unsubscribe c) (tx_consumers b)) ident =
      (case hm_get (tx_consumers b) ident of
         Some c \<Rightarrow> if tc_do_unsubscribe c then None else Some c | None \<Rightarrow> None)"
    using hm_get_filter [OF bal_invD(1) [OF assms], of "\<lambda>(_, c). \<not> tc_do_unsubscribe c" ident]
    by (auto split: option.splits)
  finally show "owner (fst (flush_unsubscribes b)) ident = (if flagged b ident then None else owner b ident)"
    by (auto simp: flagged_def owner_def split: option.splits)
qed

section \<open>The publication loop\<close>

definition tpu_ips_of :: "leader_info list \<Rightarrow> string set" where
  "tpu_ips_of info = (before_colon \<circ> li_tpu) ` set info"

text \<open>
  What the loop did, given the outcome of each send: the picks whose send succeeded and the
  identities of the others.
\<close>

definition delivered :: "picks \<Rightarrow> bool list \<Rightarrow> picks" where
  "delivered ps oks = map fst (filter snd (zip ps oks))"

definition failed_ids :: "picks \<Rightarrow> bool list \<Rightarrow> string list" where
  "failed_ids ps oks = map (tc_identity \<circ> fst \<circ> fst) (filter (\<lambda>e. \<not> snd e) (zip ps oks))"

lemma delivered_simps [simp]:
  "delivered [] oks = []"
  "delivered (p # ps) (ok # oks) = (if ok then p # delivered ps oks else delivered ps oks)"
  by (simp_all add: delivered_def)

lemma failed_ids_simps [simp]:
  "failed_ids [] oks = []"
  "failed_ids ((c, info) # ps) (ok # oks) = (if ok then failed_ids ps oks else tc_identity c # failed_ids ps oks)"
  by (simp_all add: failed_ids_def)

lemma delivered_or_failed:
  "length oks = length ps \<Longrightarrow> (c, info) \<in> set ps \<Longrightarrow>
     (c, info) \<in> set (delivered ps oks) \<or> tc_identity c \<in> set (failed_ids ps oks)"
proof (induction oks ps rule: list_induct2)
  case (Cons ok oks p ps)
  then show ?case by (cases p) auto
qed simp

lemma delivered_subset: "length oks = length ps \<Longrightarrow> set (delivered ps oks) \<subseteq> set ps"
  by (induction oks ps rule: list_induct2) auto

lemma publish_loop_spec:
  assumes "publish_loop send signature data ps session b w = (session', b', w')"
  shows "\<exists>oks. length oks = length ps \<and>
     sr_consumers session' = sr_consumers session @ map (tc_identity \<circ> fst) (delivered ps oks) \<and>
     set (sr_tpu_ips session') = set (sr_tpu_ips session) \<union> (\<Union>(c, info) \<in> set (delivered ps oks). tpu_ips_of info) \<and>
     b' = fold flag_unsubscribe (failed_ids ps oks) b \<and>
     sr_signature session' = sr_signature session"
  using assms
proof (induction send signature data ps session b w rule: publish_loop.induct)
  case (1 send signature data session b w)
  then show ?case by simp
next
  case (2 send signature data c info ps session b w)
  let ?tpus = "hs_collect (map li_tpu info)"
  obtain ok w1 where s: "send (tc_tx c) (build_tx_message_envelope signature data ?tpus) w = (ok, w1)"
    by fastforce
  have ips: "set (fold hs_insert (map before_colon ?tpus) xs) = tpu_ips_of info \<union> set xs" for xs
    by (auto simp: tpu_ips_of_def)
  show ?case
  proof (cases ok)
    case True
    let ?session = "session\<lparr>sr_consumers := sr_consumers session @ [tc_identity c],
      sr_tpu_ips := fold hs_insert (map before_colon ?tpus) (sr_tpu_ips session)\<rparr>"
    from "2.prems" s True have "publish_loop send signature data ps ?session b w1 = (session', b', w')"
      by simp
    from "2.IH"(1) [OF refl refl refl s [symmetric] True this]
    obtain oks where "length oks = length ps"
      "sr_consumers session' = sr_consumers ?session @ map (tc_identity \<circ> fst) (delivered ps oks)"
      "set (sr_tpu_ips session') = set (sr_tpu_ips ?session) \<union>
         (\<Union>(c, info) \<in> set (delivered ps oks). tpu_ips_of info)"
      "b' = fold flag_unsubscribe (failed_ids ps oks) b" "sr_signature session' = sr_signature ?session"
      by blast
    then show ?thesis by (intro exI [of _ "True # oks"]) (auto simp: ips simp del: set_fold_hs_insert)
  next
    case False
    from "2.prems" s False have "publish_loop send signature data ps session
        (flag_unsubscribe (tc_identity c) b) w1 = (session', b', w')"
      by simp
    from "2.IH"(2) [OF refl refl refl s [symmetric] False this]
    obtain oks where "length oks = length ps"
      "sr_consumers session' = sr_consumers session @ map (tc_identity \<circ> fst) (delivered ps oks)"
      "set (sr_tpu_ips session') = set (sr_tpu_ips session) \<union>
         (\<Union>(c, info) \<in> set (delivered ps oks). tpu_ips_of info)"
      "b' = fold flag_unsubscribe (failed_ids ps oks) (flag_unsubscribe (tc_identity c) b)"
      "sr_signature session' = sr_signature session"
      by blast
    then show ?thesis by (intro exI [of _ "False # oks"]) auto
  qed
qed

lemma publish_cases:
  assumes "publish gen_range send rng session signature data b w = Done (r, b', w', out)"
  obtains ps where "pick_consumers gen_range rng b = Done ps" and "ps = []"
      and "r = Inl ''No available clients connected''" and "b' = b" and "w' = w" and "out = None"
  | ps session' where "pick_consumers gen_range rng b = Done ps" and "ps \<noteq> []" and "r = Inr ()"
      and "publish_loop send signature data ps session b w = (session', b', w')" and "out = Some session'"
  using assms
  by (auto simp: publish_def split: if_splits prod.splits)

section \<open>Publication over channels that are open or closed\<close>

text \<open>
  \<^verbatim>\<open>mpsc::Sender::send\<close> fails exactly when the receiver is gone. \<open>channel_send\<close> is that
  behaviour for a fixed set of open channels, with the messages handed over as the runtime state.
\<close>

definition channel_send ::
  "(chan \<Rightarrow> bool) \<Rightarrow> chan \<Rightarrow> response_envelope \<Rightarrow> (chan \<times> response_envelope) list \<Rightarrow>
   bool \<times> (chan \<times> response_envelope) list" where
  "channel_send alive ch msg w = (if alive ch then (True, w @ [(ch, msg)]) else (False, w))"

definition envelope_for :: "string \<Rightarrow> string \<Rightarrow> tx_consumer \<times> leader_info list \<Rightarrow> chan \<times> response_envelope" where
  "envelope_for signature data p =
     (tc_tx (fst p), build_tx_message_envelope signature data (hs_collect (map li_tpu (snd p))))"

lemma publish_loop_channel:
  "\<exists>session'. publish_loop (channel_send alive) signature data ps session b w =
     (session', fold flag_unsubscribe (map (tc_identity \<circ> fst) (filter (\<lambda>p. \<not> alive (tc_tx (fst p))) ps)) b,
      w @ map (envelope_for signature data) (filter (\<lambda>p. alive (tc_tx (fst p))) ps)) \<and>
     sr_consumers session' = sr_consumers session @
       map (tc_identity \<circ> fst) (filter (\<lambda>p. alive (tc_tx (fst p))) ps)"
proof (induction "channel_send alive" signature data ps session b w rule: publish_loop.induct)
  case (2 signature data c info ps session b w)
  then show ?case
    by (auto simp: channel_send_def envelope_for_def Let_def)
qed simp

section \<open>The balancer as a machine\<close>

text \<open>
  One step is one operation under the lock, a publication, or a change of the iteration order of
  the consumer map.
\<close>

inductive bal_step ::
  "('g \<Rightarrow> u64 \<Rightarrow> u64 \<times> 'g) \<Rightarrow> (chan \<Rightarrow> response_envelope \<Rightarrow> 'w \<Rightarrow> bool \<times> 'w) \<Rightarrow>
   balancer \<Rightarrow> balancer \<Rightarrow> bool" for gen_range send where
  bal_subscribe: "bal_step gen_range send b (fst (subscribe ident tok tx tu b))"
| bal_unsubscribe: "bal_step gen_range send b (fst (unsubscribe ident tok b))"
| bal_stakes: "bal_step gen_range send b (update_stake_weights weights b)"
| bal_leaders: "bal_step gen_range send b (set_leaders tpus ls b)"
| bal_flush: "bal_step gen_range send b (fst (flush_unsubscribes b))"
| bal_rtt: "update_rtt ident v b = Done b' \<Longrightarrow> bal_step gen_range send b b'"
| bal_publish: "publish gen_range send rng (session :: string signature_record) signature data b w = Done (r, b', w', out) \<Longrightarrow>
     bal_step gen_range send b b'"
| bal_rehash: "hm_same (tx_consumers b) m \<Longrightarrow> bal_step gen_range send b (b\<lparr>tx_consumers := m\<rparr>)"

inductive_cases bal_stepE: "bal_step gen_range send b b'"

lemma bal_inv_publish [mtx_inv]:
  assumes "publish gen_range send rng session signature data b w = Done (r, b', w', out)" and "bal_inv b"
  shows "bal_inv b'"
  using assms(1)
proof (cases rule: publish_cases)
  case 1
  with assms(2) show ?thesis by simp
next
  case (2 ps session')
  from publish_loop_spec [OF 2(4)] assms(2) show ?thesis
    by (auto intro: bal_inv_fold_flag)
qed

interpretation bal_machine: inductive_invariant "balancer_new inbox" "bal_step gen_range send" bal_inv
  for inbox gen_range send
proof unfold_locales
  show "bal_inv (balancer_new inbox)" by (rule bal_inv_new)
  show "bal_inv s'" if "bal_inv s" and "bal_step gen_range send s s'" for s s'
    using that(2,1) by (elim bal_stepE) (auto intro: mtx_inv simp: bal_inv_set_leaders)
qed

text \<open>A session as the RPC handler opens it, for the witnesses.\<close>

definition session0 :: "string signature_record" where
  "session0 = \<lparr>sr_created_at = 0, sr_ctime = 0, sr_rtime = 0, sr_req_id = 0, sr_signature = ''sig'',
     sr_mode = FORWARD, sr_consumers = [], sr_tpu_ips = [], sr_partner_name = ''p''\<rparr>"

section \<open>Properties\<close>

text \<open>
  The registry invariant holds in every state the balancer can reach, in any order of
  subscriptions, disconnections, stake and leader updates, flushes, round-trip reports and
  publications, and for any iteration order of its map: keys are distinct, every entry is filed
  under its own identity, carries the stake the current stake table assigns to it (1 if the table
  does not know it) and can still be notified of its removal.
\<close>

theorem reachable_registry_invariant:
  assumes "(bal_step gen_range send)\<^sup>*\<^sup>* (balancer_new inbox) b"
  shows "hm_ok (tx_consumers b) \<and>
     (\<forall>(ident, c) \<in> set (tx_consumers b). tc_identity c = ident \<and>
        tc_stake c = (case hm_get (stake_weights b) ident of Some w \<Rightarrow> w | None \<Rightarrow> 1) \<and>
        tc_tx_unsubscribe c \<noteq> None)"
  using bal_machine.inv_reachable [OF assms]
  by (simp add: bal_inv_def consumer_ok_def stake_of_def)

theorem reachable_registry_invariant_witness:
  "hm_ok (tx_consumers (fst (subscribe ''a'' ''t1'' 1 1 (update_stake_weights [(''a'', 5)] (balancer_new 0)))))"
proof -
  let ?step = "bal_step gen_last (\<lambda>ch msg (w :: unit). (True, w))"
  have "?step\<^sup>*\<^sup>* (balancer_new 0) (update_stake_weights [(''a'', 5)] (balancer_new 0))"
    by (intro r_into_rtranclp bal_stakes)
  then have "?step\<^sup>*\<^sup>* (balancer_new 0)
      (fst (subscribe ''a'' ''t1'' 1 1 (update_stake_weights [(''a'', 5)] (balancer_new 0))))"
    by (rule rtranclp.rtrancl_into_rtrancl) (rule bal_subscribe)
  from reachable_registry_invariant [OF this] show ?thesis by blast
qed

text \<open>
  The account of a publication. Publishing fails exactly when no consumer could be chosen, and
  then changes nothing and watches nothing. Otherwise it succeeds, hands exactly one session to the
  watcher, and accounts for every chosen consumer: it is either recorded in the session, after the
  consumers recorded before, or flagged for removal; the session's TPU addresses are those sent to
  the recorded consumers. Who is registered, and with which token, does not change.
\<close>

theorem publish_accounts_for_every_consumer:
  assumes "publish gen_range send rng session signature data b w = Done (r, b', w', out)"
    and "pick_consumers gen_range rng b = Done ps" and "bal_inv b"
  shows "(case out of
       None \<Rightarrow> ps = [] \<and> r = Inl ''No available clients connected'' \<and> b' = b
     | Some session' \<Rightarrow> ps \<noteq> [] \<and> r = Inr () \<and> owner b' = owner b \<and>
         (\<exists>oks. length oks = length ps \<and>
            sr_consumers session' = sr_consumers session @ map (tc_identity \<circ> fst) (delivered ps oks) \<and>
            set (sr_tpu_ips session') = set (sr_tpu_ips session) \<union>
              (\<Union>(c, info) \<in> set (delivered ps oks). (before_colon \<circ> li_tpu) ` set info) \<and>
            (\<forall>(c, info) \<in> set ps. (c, info) \<in> set (delivered ps oks) \<or> flagged b' (tc_identity c))))"
  using assms(1)
proof (cases rule: publish_cases)
  case (1 ps')
  with assms(2) show ?thesis by simp
next
  case (2 ps' session')
  with assms(2) have ps': "ps' = ps" by simp
  from publish_loop_spec [OF 2(4)] obtain oks where
    oks: "length oks = length ps" "b' = fold flag_unsubscribe (failed_ids ps oks) b"
    and cons: "sr_consumers session' = sr_consumers session @ map (tc_identity \<circ> fst) (delivered ps oks)"
    and tpus: "set (sr_tpu_ips session') = set (sr_tpu_ips session) \<union>
       (\<Union>(c, info) \<in> set (delivered ps oks). tpu_ips_of info)"
    unfolding ps' by blast
  have "(c, info) \<in> set (delivered ps oks) \<or> flagged b' (tc_identity c)" if "(c, info) \<in> set ps" for c info
  proof -
    have "c \<in> fst ` set (chosen gen_range rng b)"
      using that pick_consumers_fst [OF assms(2)] by (metis fst_conv image_eqI list.set_map)
    then obtain k where "(k, c) \<in> set (tx_consumers b)" using chosen_connected by fastforce
    then have "owner b (tc_identity c) \<noteq> None"
      using bal_inv_identity [OF assms(3)] owner_iff [OF bal_invD(1) [OF assms(3)]] by blast
    with delivered_or_failed [OF oks(1) that] show ?thesis by (auto simp: oks(2) flagged_fold)
  qed
  then have account: "\<forall>(c, info) \<in> set ps. (c, info) \<in> set (delivered ps oks) \<or> flagged b' (tc_identity c)"
    by blast
  have "owner b' = owner b" by (simp add: oks(2))
  with 2 ps' show ?thesis
    using oks(1) cons tpus account unfolding tpu_ips_of_def by simp blast
qed

theorem publish_accounts_for_every_consumer_witness:
  "\<exists>b' w' session'. publish gen_last (channel_send (\<lambda>ch. ch = 1)) () session0 ''sig'' ''data''
       (with_leaders [''x'', ''y'', ''z'']) [] = Done (Inr (), b', w', Some session') \<and>
     owner b' = owner (with_leaders [''x'', ''y'', ''z''])"
proof -
  let ?b = "with_leaders [''x'', ''y'', ''z'']"
  obtain ps where ps: "pick_consumers gen_last () ?b = Done ps" "ps \<noteq> []"
    using with_leaders_pick [of "[''x'', ''y'', ''z'']"] by (auto simp: N_CONSUMERS_def)
  obtain b' w' session' where "publish_loop (channel_send (\<lambda>ch. ch = 1)) ''sig'' ''data'' ps session0 ?b [] = (session', b', w')"
    by (rule prod_cases3)
  with ps have pub: "publish gen_last (channel_send (\<lambda>ch. ch = 1)) () session0 ''sig'' ''data'' ?b [] =
      Done (Inr (), b', w', Some session')"
    by (simp add: publish_def)
  from publish_accounts_for_every_consumer [OF pub ps(1) with_leaders_facts(1)] pub
  show ?thesis by auto
qed

text \<open>
  C10. Publication over channels, to the end. With the channels that are open, every chosen consumer
  that can be reached gets exactly one envelope, in the order of the choice, with the signature, the
  payload unchanged and its TPU addresses without repetition; nobody else gets anything. The next
  flush then evicts exactly the chosen consumers that could not be reached and the ones flagged
  before, and every other client stays registered with its token.
\<close>

theorem publish_then_flush_evicts_dead:
  assumes "bal_inv b" and "pick_consumers gen_range rng b = Done ps" and "ps \<noteq> []"
  shows "\<exists>b' session'.
     publish gen_range (channel_send alive) rng session signature data b w =
       Done (Inr (), b',
         w @ map (\<lambda>(c, info). (tc_tx c, \<lparr>rs_transaction = Some \<lparr>tr_data = data, tr_signature = signature,
                    tr_tpu = remdups (map li_tpu info)\<rparr>, rs_ping = None\<rparr>))
               (filter (\<lambda>(c, info). alive (tc_tx c)) ps), Some session') \<and>
     sr_consumers session' = sr_consumers session @ map (tc_identity \<circ> fst) (filter (\<lambda>(c, info). alive (tc_tx c)) ps) \<and>
     owner (fst (flush_unsubscribes b')) =
       (\<lambda>ident. if flagged b ident \<or> (\<exists>(c, info) \<in> set ps. tc_identity c = ident \<and> \<not> alive (tc_tx c))
                then None else owner b ident)"
proof -
  let ?dead = "map (tc_identity \<circ> fst) (filter (\<lambda>p. \<not> alive (tc_tx (fst p))) ps)"
  let ?b' = "fold flag_unsubscribe ?dead b"
  from publish_loop_channel [of alive signature data ps session b w] obtain session' where
    loop: "publish_loop (channel_send alive) signature data ps session b w =
      (session', ?b', w @ map (envelope_for signature data) (filter (\<lambda>p. alive (tc_tx (fst p))) ps))"
    and cons: "sr_consumers session' = sr_consumers session @
       map (tc_identity \<circ> fst) (filter (\<lambda>p. alive (tc_tx (fst p))) ps)"
    by blast
  from assms(2,3) loop have pub: "publish gen_range (channel_send alive) rng session signature data b w =
      Done (Inr (), ?b', w @ map (envelope_for signature data) (filter (\<lambda>p. alive (tc_tx (fst p))) ps), Some session')"
    by (simp add: publish_def)
  have "owner (fst (flush_unsubscribes ?b')) =
      (\<lambda>ident. if flagged ?b' ident then None else owner ?b' ident)"
    by (rule owner_flush) (rule bal_inv_fold_flag [OF assms(1)])
  also have "\<dots> = (\<lambda>ident. if flagged b ident \<or>
      (\<exists>(c, info) \<in> set ps. tc_identity c = ident \<and> \<not> alive (tc_tx c)) then None else owner b ident)"
    by (rule ext) (force simp: flagged_fold)
  finally show ?thesis using pub cons
    by (simp add: envelope_for_def [abs_def] build_tx_message_envelope_def hs_collect_def case_prod_unfold)
qed

theorem publish_then_flush_evicts_dead_witness:
  "\<exists>b' w' session'. publish gen_last (channel_send (\<lambda>ch. ch = 1)) () session0 ''sig'' ''data''
       (with_leaders [''x'', ''y'', ''z'']) [] = Done (Inr (), b', w', Some session')"
proof -
  obtain ps where ps: "pick_consumers gen_last () (with_leaders [''x'', ''y'', ''z'']) = Done ps" "ps \<noteq> []"
    using with_leaders_pick [of "[''x'', ''y'', ''z'']"] by (auto simp: N_CONSUMERS_def)
  from publish_then_flush_evicts_dead [OF with_leaders_facts(1) ps, of "\<lambda>ch. ch = 1" session0 "''sig''" "''data''" "[]"]
  show ?thesis by blast
qed

end
