(* ===== verification/Balancer_Updater.thy ===== *)
theory Balancer_Updater
  imports Balancer_Publish
begin

text \<open>
  The updater task of \<^verbatim>\<open>balancer_updater\<close>: what a new leader list leaves in the
  balancer, and the invariant the choice of consumers relies on (the leader list is the list of
  values of the leader map, which the task sets together).
\<close>

section \<open>Resolving leaders\<close>

text \<open>The contact of a leader: its validator record, with the TPU of the gossip table if it has one.\<close>

definition leader_contact ::
  "(string \<Rightarrow> 'p option) \<Rightarrow> ('p \<Rightarrow> string option) \<Rightarrow> (string, leader_info) hmap \<Rightarrow> string \<Rightarrow>
   leader_info option" where
  "leader_contact pubkey_from_str tpu_quic info_map ident =
     map_option (\<lambda>rec. case Option.bind (pubkey_from_str ident) tpu_quic of
                         Some tpu \<Rightarrow> rec\<lparr>li_tpu := tpu\<rparr> | None \<Rightarrow> rec)
       (hm_get info_map ident)"

definition bad_key :: "(string \<Rightarrow> 'p option) \<Rightarrow> (string, leader_info) hmap \<Rightarrow> string \<Rightarrow> bool" where
  "bad_key pubkey_from_str info_map ident \<longleftrightarrow>
     hm_get info_map ident \<noteq> None \<and> pubkey_from_str ident = None"

lemma lookup_info_spec:
  "lookup_info pk tq m ident =
     (if bad_key pk m ident then Panic ''called `Result::unwrap()` on an `Err` value''
      else Done (leader_contact pk tq m ident))"
  by (auto simp: lookup_info_def bad_key_def leader_contact_def split: option.splits)

lemma lookup_leaders_spec:
  "lookup_leaders pk tq m idents =
     (if \<exists>i \<in> set idents. bad_key pk m i then Panic ''called `Result::unwrap()` on an `Err` value''
      else Done (List.map_filter (\<lambda>i. map_option (Pair i) (leader_contact pk tq m i)) idents))"
  by (induction idents) (auto simp: lookup_info_spec map_filter_simps split: option.splits)

lemma map_of_map_filter_Pair:
  "map_of (List.map_filter (\<lambda>i. map_option (Pair i) (f i)) is) k = (if k \<in> set is then f k else None)"
  by (induction "is") (auto simp: map_filter_simps split: option.splits)

lemma rev_map_filter: "rev (List.map_filter f xs) = List.map_filter f (rev xs)"
  by (induction xs) (auto simp: map_filter_simps List.map_filter_def split: option.splits)

lemma hm_get_collect_leaders:
  "hm_get (hm_collect (List.map_filter (\<lambda>i. map_option (Pair i) (f i)) is)) k =
     (if k \<in> set is then f k else None)"
  by (simp add: hm_get_collect rev_map_filter map_of_map_filter_Pair)

section \<open>The state the updater leaves\<close>

lemma unsubscribe_all_fields [simp]:
  "leaders (fst (unsubscribe_all es b)) = leaders b"
  "leader_tpus (fst (unsubscribe_all es b)) = leader_tpus b"
  "stake_weights (fst (unsubscribe_all es b)) = stake_weights b"
  by (induction es arbitrary: b) (auto simp: fst_unsubscribe_all)

lemma flush_fields [simp]:
  "leaders (fst (flush_unsubscribes b)) = leaders b"
  "leader_tpus (fst (flush_unsubscribes b)) = leader_tpus b"
  "stake_weights (fst (flush_unsubscribes b)) = stake_weights b"
  by (simp_all add: flush_unsubscribes_def)

lemma set_leaders_fields [simp]:
  "leaders (set_leaders tpus ls b) = ls" "leader_tpus (set_leaders tpus ls b) = tpus"
  "tx_consumers (set_leaders tpus ls b) = tx_consumers b"
  "stake_weights (set_leaders tpus ls b) = stake_weights b"
  by (simp_all add: set_leaders_def)

lemma set_leaders_owner [simp]:
  "owner (set_leaders tpus ls b) = owner b" "flagged (set_leaders tpus ls b) = flagged b"
  by (auto simp: owner_def flagged_def fun_eq_iff)

lemma updater_new_leaders:
  "updater_step pk tq (New_leaders plain) u =
     (if \<exists>i \<in> set plain. bad_key pk (up_info_map u) i
      then Panic ''called `Result::unwrap()` on an `Err` value''
      else let info = hm_collect (List.map_filter
             (\<lambda>i. map_option (Pair i) (leader_contact pk tq (up_info_map u) i)) plain);
             r = flush_unsubscribes (set_leaders (hm_values info) info (up_balancer u))
           in Done (u\<lparr>up_balancer := fst r\<rparr>, snd r))"
  by (simp add: lookup_leaders_spec Let_def case_prod_beta)

section \<open>Properties\<close>

text \<open>
  C18. What a new leader list does. The updater panics exactly when a listed leader has a validator
  record but its identity is not a public key. Otherwise the leader map holds exactly the listed
  leaders that have a record, with the TPU of the gossip table in place of the recorded one where
  there is one; the leader list is the map's values, which is what the choice of consumers assumes;
  clients flagged by failed sends are evicted and all others keep their session and stake.
\<close>

theorem updater_installs_known_leaders:
  assumes "bal_inv (up_balancer u)"
  shows "((\<exists>err. updater_step pk tq (New_leaders plain) u = Panic err) \<longleftrightarrow>
       (\<exists>i \<in> set plain. hm_get (up_info_map u) i \<noteq> None \<and> pk i = None)) \<and>
     (\<forall>u' effs. updater_step pk tq (New_leaders plain) u = Done (u', effs) \<longrightarrow>
         (\<forall>i. hm_get (leaders (up_balancer u')) i =
            (if i \<in> set plain then map_option (\<lambda>rec. case Option.bind (pk i) tq of
                Some tpu \<Rightarrow> rec\<lparr>li_tpu := tpu\<rparr> | None \<Rightarrow> rec) (hm_get (up_info_map u) i) else None)) \<and>
         leader_tpus (up_balancer u') = hm_values (leaders (up_balancer u')) \<and>
         tx_consumers (up_balancer u') =
           filter (\<lambda>(_, c). \<not> tc_do_unsubscribe c) (tx_consumers (up_balancer u)) \<and>
         up_info_map u' = up_info_map u)"
proof -
  have inv: "bal_inv (set_leaders tpus ls (up_balancer u))" for tpus ls
    using assms by (simp add: bal_inv_set_leaders)
  show ?thesis
    unfolding updater_new_leaders
    by (auto simp: Let_def hm_get_collect_leaders flush_unsubscribes_filter [OF inv] bad_key_def
        leader_contact_def)
qed

theorem updater_installs_known_leaders_witness:
  "\<exists>u' effs. updater_step (\<lambda>s. Some s) (\<lambda>p. if p = ''y'' then Some ''gossip'' else None)
       (New_leaders [''x'', ''q'', ''y''])
       \<lparr>up_balancer = two_clients, up_info_map = [(''x'', leader_at ''x''), (''y'', leader_at ''y'')]\<rparr> = Done (u', effs) \<and>
     hm_get (leaders (up_balancer u')) ''y'' = Some ((leader_at ''y'')\<lparr>li_tpu := ''gossip''\<rparr>) \<and>
     hm_get (leaders (up_balancer u')) ''q'' = None"
proof -
  let ?u = "\<lparr>up_balancer = two_clients, up_info_map = [(''x'', leader_at ''x''), (''y'', leader_at ''y'')]\<rparr>"
  let ?pk = "\<lambda>s :: string. Some s" and ?tq = "\<lambda>p. if p = ''y'' then Some ''gossip'' else None"
  have "bal_inv (up_balancer ?u)" by (simp add: two_clients_facts)
  from updater_installs_known_leaders [OF this, of ?pk ?tq "[''x'', ''q'', ''y'']"]
  show ?thesis
    by (cases "updater_step ?pk ?tq (New_leaders [''x'', ''q'', ''y'']) ?u") (auto simp: hm_get_Cons)
qed

end
