(* ===== verification/Balancer_Spec.thy ===== *)
theory Balancer_Spec
  imports Balancer_Updater
begin

text \<open>
  What the balancer promises, without its data structures: a table of connected clients (token,
  channels, whether the client is to be evicted), a stake table, the leaders and the round-trip
  means. The operations of the specification are updates of functions; there are no lists, no
  iteration order, no redundant totals. The balancer refines it: every operation, seen through the
  abstraction \<open>abs_registry\<close>, is the operation of the specification and notifies the same sessions,
  for every iteration order of the hash maps.
\<close>

section \<open>The specification\<close>

record client_entry =
  ce_token :: string
  ce_chan :: chan
  ce_signal :: oneshot
  ce_evict :: bool

record registry_spec =
  sp_clients :: "string \<Rightarrow> client_entry option"
  sp_stakes :: "string \<Rightarrow> u64 option"
  sp_leaders :: "string \<Rightarrow> leader_info option"
  sp_rtt :: "string \<Rightarrow> string \<Rightarrow> rtt_value"

definition spec_new :: registry_spec where
  "spec_new = \<lparr>sp_clients = Map.empty, sp_stakes = Map.empty, sp_leaders = Map.empty,
     sp_rtt = (\<lambda>_ _. \<lparr>rv_rtt = 0, rv_n = 0\<rparr>)\<rparr>"

text \<open>The operations, and the sessions each of them notifies.\<close>

datatype balancer_op =
    Subscribe string string chan oneshot
  | Unsubscribe string string
  | Flush
  | Stakes "(string, u64) hmap"
  | Leaders "(string, leader_info) hmap"
  | Report string pb_rtt

definition signal_of :: "(string \<Rightarrow> client_entry option) \<Rightarrow> string \<Rightarrow> oneshot set" where
  "signal_of clients ident = (case clients ident of Some e \<Rightarrow> {ce_signal e} | None \<Rightarrow> {})"

fun spec_exec :: "balancer_op \<Rightarrow> registry_spec \<Rightarrow> registry_spec" where
  "spec_exec (Subscribe ident tok tx tu) s =
     s\<lparr>sp_clients := (sp_clients s)(ident \<mapsto>
         \<lparr>ce_token = tok, ce_chan = tx, ce_signal = tu, ce_evict = False\<rparr>)\<rparr>"
| "spec_exec (Unsubscribe ident tok) s =
     (if map_option ce_token (sp_clients s ident) = Some tok
      then s\<lparr>sp_clients := (sp_clients s)(ident := None)\<rparr> else s)"
| "spec_exec Flush s =
     s\<lparr>sp_clients := (\<lambda>i. case sp_clients s i of Some e \<Rightarrow> if ce_evict e then None else Some e | None \<Rightarrow> None)\<rparr>"
| "spec_exec (Stakes weights) s = s\<lparr>sp_stakes := hm_get weights\<rparr>"
| "spec_exec (Leaders ls) s = s\<lparr>sp_leaders := hm_get ls\<rparr>"
| "spec_exec (Report ident v) s =
     (let slot = sp_rtt s ident (rt_ip v); n = rv_n slot + 1
      in s\<lparr>sp_rtt := (sp_rtt s)(ident := (sp_rtt s ident)(rt_ip v :=
           \<lparr>rv_rtt = (rv_n slot * rv_rtt slot + rt_rtt v) div n, rv_n = n\<rparr>))\<rparr>)"

fun spec_notifies :: "balancer_op \<Rightarrow> registry_spec \<Rightarrow> oneshot set" where
  "spec_notifies (Subscribe ident tok tx tu) s = signal_of (sp_clients s) ident"
| "spec_notifies (Unsubscribe ident tok) s =
     (if map_option ce_token (sp_clients s ident) = Some tok then signal_of (sp_clients s) ident else {})"
| "spec_notifies Flush s = {ce_signal e | e i. sp_clients s i = Some e \<and> ce_evict e}"
| "spec_notifies _ s = {}"

text \<open>
  A publication may pick any connected clients. It reports who got the transaction (\<open>None\<close>: nobody
  could be picked, which only happens when no leader is connected); the clients that could not be
  reached are marked; every connected leader is in one of the two groups.
\<close>

definition mark_evict :: "string set \<Rightarrow> registry_spec \<Rightarrow> registry_spec" where
  "mark_evict F s = s\<lparr>sp_clients :=
     (\<lambda>i. map_option (\<lambda>e. if i \<in> F then e\<lparr>ce_evict := True\<rparr> else e) (sp_clients s i))\<rparr>"

datatype balancer_label =
    Operation balancer_op "oneshot set"
  | Published "string list option"
  | Internal

inductive spec_step :: "registry_spec \<Rightarrow> balancer_label \<Rightarrow> registry_spec \<Rightarrow> bool" where
  spec_op: "spec_step s (Operation op (spec_notifies op s)) (spec_exec op s)"
| spec_published: "set cs \<union> F \<subseteq> dom (sp_clients s) \<Longrightarrow> set cs \<union> F \<noteq> {} \<Longrightarrow>
     dom (sp_leaders s) \<inter> dom (sp_clients s) \<subseteq> set cs \<union> F \<Longrightarrow>
     spec_step s (Published (Some cs)) (mark_evict F s)"
| spec_refused: "dom (sp_leaders s) \<inter> dom (sp_clients s) = {} \<Longrightarrow> spec_step s (Published None) s"
| spec_internal: "spec_step s Internal s"

section \<open>The balancer as an implementation\<close>

definition abs_client :: "tx_consumer \<Rightarrow> client_entry" where
  "abs_client c = \<lparr>ce_token = tc_token c, ce_chan = tc_tx c, ce_signal = the (tc_tx_unsubscribe c),
     ce_evict = tc_do_unsubscribe c\<rparr>"

definition abs_registry :: "balancer \<Rightarrow> registry_spec" where
  "abs_registry b = \<lparr>sp_clients = (\<lambda>i. map_option abs_client (hm_get (tx_consumers b) i)),
     sp_stakes = hm_get (stake_weights b), sp_leaders = hm_get (leaders b), sp_rtt = rtt_slot b\<rparr>"

text \<open>The updater installs the values of the leader map as the leader list.\<close>

fun bal_exec :: "balancer_op \<Rightarrow> balancer \<Rightarrow> (balancer \<times> effect list) outcome" where
  "bal_exec (Subscribe ident tok tx tu) b = Done (subscribe ident tok tx tu b)"
| "bal_exec (Unsubscribe ident tok) b = Done (unsubscribe ident tok b)"
| "bal_exec Flush b = Done (flush_unsubscribes b)"
| "bal_exec (Stakes weights) b = Done (update_stake_weights weights b, [])"
| "bal_exec (Leaders ls) b = Done (set_leaders (hm_values ls) ls b, [])"
| "bal_exec (Report ident v) b = outcome_bind (update_rtt ident v b) (\<lambda>b'. Done (b', []))"

inductive bal_lstep ::
  "('g \<Rightarrow> u64 \<Rightarrow> u64 \<times> 'g) \<Rightarrow> (chan \<Rightarrow> response_envelope \<Rightarrow> 'w \<Rightarrow> bool \<times> 'w) \<Rightarrow>
   balancer \<Rightarrow> balancer_label \<Rightarrow> balancer \<Rightarrow> bool" for gen_range send where
  lstep_op: "bal_exec op b = Done (b', effs) \<Longrightarrow>
     bal_lstep gen_range send b (Operation op (set (notices effs))) b'"
| lstep_publish: "publish gen_range send rng (session :: string signature_record) signature data b w =
       Done (r, b', w', out) \<Longrightarrow> sr_consumers session = [] \<Longrightarrow>
     bal_lstep gen_range send b (Published (map_option sr_consumers out)) b'"
| lstep_rehash: "hm_same (tx_consumers b) m \<Longrightarrow>
     bal_lstep gen_range send b Internal (b\<lparr>tx_consumers := m\<rparr>)"

inductive_cases bal_lstepE: "bal_lstep gen_range send b l b'"

section \<open>Each operation refines its specification\<close>

lemma abs_registry_simps [simp]:
  "sp_clients (abs_registry b) = (\<lambda>i. map_option abs_client (hm_get (tx_consumers b) i))"
  "sp_stakes (abs_registry b) = hm_get (stake_weights b)"
  "sp_leaders (abs_registry b) = hm_get (leaders b)"
  "sp_rtt (abs_registry b) = rtt_slot b"
  by (simp_all add: abs_registry_def)

lemma abs_registryI:
  assumes "\<And>i. sp_clients s i = map_option abs_client (hm_get (tx_consumers b) i)"
    and "sp_stakes s = hm_get (stake_weights b)" and "sp_leaders s = hm_get (leaders b)"
    and "sp_rtt s = rtt_slot b"
  shows "abs_registry b = s"
  by (rule registry_spec.equality) (simp_all add: assms fun_eq_iff)

lemma rtt_slot_cong: "rtt_values b' = rtt_values b \<Longrightarrow> rtt_slot b' = rtt_slot b"
  by (simp add: rtt_slot_def fun_eq_iff)

lemma rtt_values_unsubscribe_all [simp]: "rtt_values (fst (unsubscribe_all es b)) = rtt_values b"
  by (induction es arbitrary: b) (auto simp: fst_unsubscribe_all)

lemma rtt_slot_registry [simp]:
  "rtt_slot (fst (subscribe ident tok tx tu b)) = rtt_slot b"
  "rtt_slot (fst (unsubscribe ident tok b)) = rtt_slot b"
  "rtt_slot (fst (flush_unsubscribes b)) = rtt_slot b"
  "rtt_slot (update_stake_weights weights b) = rtt_slot b"
  "rtt_slot (set_leaders tpus ls b) = rtt_slot b"
  "rtt_slot (fold flag_unsubscribe ids b) = rtt_slot b"
  "rtt_slot (b\<lparr>tx_consumers := m\<rparr>) = rtt_slot b"
  by (rule rtt_slot_cong; simp add: flush_unsubscribes_def update_stake_weights_def set_leaders_def)+

lemma abs_subscribe:
  "abs_registry (fst (subscribe ident tok tx tu b)) = spec_exec (Subscribe ident tok tx tu) (abs_registry b)"
  by (rule abs_registryI) (simp_all add: abs_client_def)

lemma owner_abs: "owner b ident = map_option ce_token (sp_clients (abs_registry b) ident)"
  by (simp add: owner_def option.map_comp comp_def abs_client_def)

lemma abs_unsubscribe:
  "abs_registry (fst (unsubscribe ident tok b)) = spec_exec (Unsubscribe ident tok) (abs_registry b)"
proof (rule abs_registryI)
  show "sp_clients (spec_exec (Unsubscribe ident tok) (abs_registry b)) i =
      map_option abs_client (hm_get (tx_consumers (fst (unsubscribe ident tok b))) i)" for i
    using owner_abs [of b ident] by (auto simp: fst_unsubscribe)
qed simp_all

lemma hm_get_flush:
  assumes "bal_inv b"
  shows "hm_get (tx_consumers (fst (flush_unsubscribes b))) i =
     (case hm_get (tx_consumers b) i of Some c \<Rightarrow> if tc_do_unsubscribe c then None else Some c | None \<Rightarrow> None)"
  using hm_get_filter [OF bal_invD(1) [OF assms], of "\<lambda>(_, c). \<not> tc_do_unsubscribe c" i]
  by (auto simp: flush_unsubscribes_filter [OF assms] split: option.splits)

lemma abs_flush: "bal_inv b \<Longrightarrow> abs_registry (fst (flush_unsubscribes b)) = spec_exec Flush (abs_registry b)"
  by (rule abs_registryI) (simp_all add: hm_get_flush abs_client_def split: option.split)

lemma abs_stakes: "abs_registry (update_stake_weights weights b) = spec_exec (Stakes weights) (abs_registry b)"
  by (rule abs_registryI)
     (auto simp: update_stake_weights_def abs_client_def option.map_comp rtt_slot_def fun_eq_iff intro!: option.map_cong0)

lemma abs_leaders: "abs_registry (set_leaders tpus ls b) = spec_exec (Leaders ls) (abs_registry b)"
  by (rule abs_registryI) simp_all

lemma abs_report:
  assumes "update_rtt ident v b = Done b'"
  shows "abs_registry b' = spec_exec (Report ident v) (abs_registry b)"
proof (rule abs_registryI)
  have "rv_n (rtt_slot b ident (rt_ip v)) + 1 \<noteq> 0"
    using assms by (auto simp: update_rtt_def rtt_slot_def Let_def split: if_splits option.splits)
  from update_rtt_slot [OF this] assms
  show "sp_rtt (spec_exec (Report ident v) (abs_registry b)) = rtt_slot b'"
    by (auto simp: fun_eq_iff Let_def)
qed (use assms in \<open>auto simp: update_rtt_def Let_def split: if_splits\<close>)

lemma abs_rehash:
  "hm_ok (tx_consumers b) \<Longrightarrow> hm_same (tx_consumers b) m \<Longrightarrow> abs_registry (b\<lparr>tx_consumers := m\<rparr>) = abs_registry b"
  by (rule abs_registryI) (simp_all add: hm_same_get)

lemma hm_get_fold_flag:
  "hm_get (tx_consumers (fold flag_unsubscribe ids b)) i =
     map_option (\<lambda>c. if i \<in> set ids then c\<lparr>tc_do_unsubscribe := True\<rparr> else c) (hm_get (tx_consumers b) i)"
  by (induction ids arbitrary: b) (auto simp: hm_get_flag option.map_comp option.map_ident_strong intro!: option.map_cong0)

lemma abs_fold_flag: "abs_registry (fold flag_unsubscribe ids b) = mark_evict (set ids) (abs_registry b)"
  by (rule abs_registryI)
     (auto simp: mark_evict_def hm_get_fold_flag abs_client_def option.map_comp intro!: option.map_cong0)

section \<open>Each operation notifies the sessions the specification says\<close>

lemma notices_append [simp]: "notices (effs @ effs') = notices effs @ notices effs'"
  by (induction effs) (auto simp: notices_def map_filter_simps split: effect.splits)

lemma notices_map_Metric [simp]: "notices (map (\<lambda>x. Metric (f x)) xs) = []"
  by (induction xs) simp_all

lemma notices_recalc [simp]: "notices (snd (recalc_total_connected_stake b)) = []"
  by (simp add: recalc_total_connected_stake_def)

lemma notices_drop: "set (notices (drop_consumer c)) = set_option (tc_tx_unsubscribe c)"
  by (simp add: drop_consumer_def split: option.split)

lemma bal_inv_signal:
  assumes "bal_inv b" and "hm_get (tx_consumers b) i = Some c"
  shows "tc_tx_unsubscribe c = Some (ce_signal (abs_client c))"
proof -
  have "(i, c) \<in> set (tx_consumers b)" using assms bal_invD(1) by (simp add: hm_get_iff)
  from bal_invD(2) [OF assms(1) this] show ?thesis by (auto simp: consumer_ok_def abs_client_def)
qed

lemma signal_of_abs:
  "bal_inv b \<Longrightarrow> signal_of (sp_clients (abs_registry b)) i =
     (case hm_get (tx_consumers b) i of Some c \<Rightarrow> set_option (tc_tx_unsubscribe c) | None \<Rightarrow> {})"
  by (auto simp: signal_of_def bal_inv_signal split: option.split)

lemma subscribe_notices:
  "bal_inv b \<Longrightarrow> set (notices (snd (subscribe ident tok tx tu b))) = spec_notifies (Subscribe ident tok tx tu) (abs_registry b)"
  by (simp add: signal_of_abs subscribe_def Let_def case_prod_beta notices_drop del: set_notices abs_registry_simps
      split: option.split)

lemma unsubscribe_notices:
  "bal_inv b \<Longrightarrow> set (notices (snd (unsubscribe ident tok b))) = spec_notifies (Unsubscribe ident tok) (abs_registry b)"
  unfolding spec_notifies.simps owner_abs [symmetric] signal_of_abs
  by (auto simp: owner_def unsubscribe_def Let_def case_prod_beta notices_drop simp del: set_notices split: option.split)

lemma unsubscribe_notices_iff:
  "os \<in> set (notices (snd (unsubscribe i t b))) \<longleftrightarrow>
     (\<exists>c. hm_get (tx_consumers b) i = Some c \<and> tc_token c = t \<and> tc_tx_unsubscribe c = Some os)"
  by (cases "hm_get (tx_consumers b) i")
     (simp_all add: unsubscribe_def Let_def case_prod_beta notices_drop elem_set del: set_notices)

lemma unsubscribe_all_notices:
  "bal_inv b \<Longrightarrow> os \<in> set (notices (snd (unsubscribe_all es b))) \<longleftrightarrow>
     (\<exists>k c. hm_get (tx_consumers b) k = Some c \<and> (k, tc_token c) \<in> set es \<and> tc_tx_unsubscribe c = Some os)"
proof (induction es arbitrary: b)
  case (Cons e es)
  obtain i t where e: "e = (i, t)" by fastforce
  note ok = bal_invD(1) [OF Cons.prems]
  let ?b = "fst (unsubscribe i t b)"
  have get: "hm_get (tx_consumers ?b) k = Some c \<longleftrightarrow> hm_get (tx_consumers b) k = Some c \<and> (k, tc_token c) \<noteq> (i, t)" for k c
    using hm_get_iff [OF hm_ok_filter [OF ok]] by (auto simp: tx_consumers_unsubscribe [OF ok] hm_get_iff [OF ok])
  have "snd (unsubscribe_all (e # es) b) = snd (unsubscribe i t b) @ snd (unsubscribe_all es ?b)"
    by (simp add: e Let_def case_prod_beta)
  then have "os \<in> set (notices (snd (unsubscribe_all (e # es) b))) \<longleftrightarrow>
      os \<in> set (notices (snd (unsubscribe i t b))) \<or> os \<in> set (notices (snd (unsubscribe_all es ?b)))"
    by (simp del: set_notices)
  also have "\<dots> \<longleftrightarrow> (\<exists>c. hm_get (tx_consumers b) i = Some c \<and> tc_token c = t \<and> tc_tx_unsubscribe c = Some os) \<or>
      (\<exists>k c. hm_get (tx_consumers ?b) k = Some c \<and> (k, tc_token c) \<in> set es \<and> tc_tx_unsubscribe c = Some os)"
    unfolding unsubscribe_notices_iff Cons.IH [OF bal_inv_unsubscribe [OF Cons.prems]] ..
  finally show ?case by (auto simp: e get)
qed simp

lemma flush_notices:
  assumes "bal_inv b"
  shows "set (notices (snd (flush_unsubscribes b))) = spec_notifies Flush (abs_registry b)"
proof -
  note ok = bal_invD(1) [OF assms]
  have "(k, tc_token c) \<in> set (map (\<lambda>c. (tc_identity c, tc_token c)) (filter tc_do_unsubscribe (hm_values (tx_consumers b))))
      \<longleftrightarrow> tc_do_unsubscribe c" if kc: "hm_get (tx_consumers b) k = Some c" for k c
  proof -
    have "d = c" if "(j, d) \<in> set (tx_consumers b)" "tc_identity d = k" for j d
      using that kc bal_inv_identity [OF assms that(1)] by (simp flip: hm_get_iff [OF ok])
    moreover have "(k, c) \<in> set (tx_consumers b)" "tc_identity c = k"
      using kc bal_inv_identity [OF assms] by (simp_all add: hm_get_iff [OF ok])
    ultimately show ?thesis by (force simp: hm_values_def)
  qed
  then have lhs: "os \<in> set (notices (snd (flush_unsubscribes b))) \<longleftrightarrow>
      (\<exists>k c. hm_get (tx_consumers b) k = Some c \<and> tc_do_unsubscribe c \<and> tc_tx_unsubscribe c = Some os)" for os
    unfolding flush_unsubscribes_def Let_def unsubscribe_all_notices [OF assms] by blast
  have rhs: "os \<in> spec_notifies Flush (abs_registry b) \<longleftrightarrow>
      (\<exists>k c. hm_get (tx_consumers b) k = Some c \<and> tc_do_unsubscribe c \<and> os = ce_signal (abs_client c))" for os
  proof -
    have "ce_evict (abs_client c) = tc_do_unsubscribe c" for c by (simp add: abs_client_def)
    then show ?thesis by auto
  qed
  have "tc_tx_unsubscribe c = Some os \<longleftrightarrow> os = ce_signal (abs_client c)"
    if "hm_get (tx_consumers b) k = Some c" for k c os
    using bal_inv_signal [OF assms that] by auto
  then show ?thesis unfolding set_eq_iff lhs rhs by blast
qed

section \<open>Publication refines its specification\<close>

lemma pick_idents:
  assumes "bal_inv b" and "pick_consumers gen_range rng b = Done ps"
  shows "(tc_identity \<circ> fst) ` set ps \<subseteq> dom (sp_clients (abs_registry b))"
    and "dom (sp_leaders (abs_registry b)) \<inter> dom (sp_clients (abs_registry b)) \<subseteq> (tc_identity \<circ> fst) ` set ps"
proof -
  note ok = bal_invD(1) [OF assms(1)]
  have ps: "fst ` set ps = fst ` set (chosen gen_range rng b)"
    using pick_consumers_fst [OF assms(2)] by (metis list.set_map)
  show "(tc_identity \<circ> fst) ` set ps \<subseteq> dom (sp_clients (abs_registry b))"
  proof
    fix i assume "i \<in> (tc_identity \<circ> fst) ` set ps"
    then obtain c where c: "c \<in> fst ` set (chosen gen_range rng b)" "i = tc_identity c"
      using ps unfolding image_comp [symmetric] by blast
    from chosen_connected [OF c(1)] obtain k where "(k, c) \<in> set (tx_consumers b)" by auto
    with bal_inv_identity [OF assms(1)] c(2) show "i \<in> dom (sp_clients (abs_registry b))"
      by (force simp: hm_get_iff [OF ok] dom_def)
  qed
  show "dom (sp_leaders (abs_registry b)) \<inter> dom (sp_clients (abs_registry b)) \<subseteq> (tc_identity \<circ> fst) ` set ps"
  proof
    fix i assume "i \<in> dom (sp_leaders (abs_registry b)) \<inter> dom (sp_clients (abs_registry b))"
    then obtain c tpu where c: "(i, c) \<in> set (tx_consumers b)" "hm_get (leaders b) i = Some tpu"
      by (auto simp: hm_get_iff [OF ok])
    then have "(c, [tpu]) \<in> set (chosen gen_range rng b)"
      using chosen_append [of gen_range rng b] leader_consumers_iff [of c "[tpu]" b] by auto
    then have "c \<in> fst ` set ps" unfolding ps by force
    with bal_inv_identity [OF assms(1) c(1)] show "i \<in> (tc_identity \<circ> fst) ` set ps" by force
  qed
qed

lemma delivered_failed_idents:
  "length oks = length ps \<Longrightarrow>
     set (map (tc_identity \<circ> fst) (delivered ps oks)) \<union> set (failed_ids ps oks) = (tc_identity \<circ> fst) ` set ps"
proof (induction oks ps rule: list_induct2)
  case (Cons ok oks p ps)
  then show ?case by (cases p) auto
qed simp

lemma publish_refines:
  assumes "publish gen_range send rng session signature data b w = Done (r, b', w', out)"
    and "sr_consumers session = []" and "bal_inv b"
  shows "spec_step (abs_registry b) (Published (map_option sr_consumers out)) (abs_registry b')"
  using assms(1)
proof (cases rule: publish_cases)
  case (1 ps)
  with pick_idents(2) [OF assms(3) 1(1)] show ?thesis by (simp add: spec_refused)
next
  case (2 ps session')
  from publish_loop_spec [OF 2(4)] assms(2) obtain oks where oks: "length oks = length ps"
    and cs: "sr_consumers session' = map (tc_identity \<circ> fst) (delivered ps oks)"
    and b': "b' = fold flag_unsubscribe (failed_ids ps oks) b"
    by auto
  note picked = delivered_failed_idents [OF oks, folded cs] pick_idents [OF assms(3) 2(1)]
  have "spec_step (abs_registry b) (Published (Some (sr_consumers session')))
      (mark_evict (set (failed_ids ps oks)) (abs_registry b))"
    by (rule spec_published) (use picked 2(2) in auto)
  with 2(5) show ?thesis by (simp add: b' abs_fold_flag)
qed

section \<open>The balancer refines the registry\<close>

lemma bal_exec_refines:
  assumes "bal_exec op b = Done (b', effs)" and "bal_inv b"
  shows "abs_registry b' = spec_exec op (abs_registry b) \<and> set (notices effs) = spec_notifies op (abs_registry b) \<and> bal_inv b'"
proof (cases op)
  case (Subscribe ident tok tx tu)
  with assms show ?thesis
    using abs_subscribe [of ident tok tx tu b] subscribe_notices [of b ident tok tx tu] bal_inv_subscribe [of b ident tok tx tu]
    by simp
next
  case (Unsubscribe ident tok)
  with assms show ?thesis
    using abs_unsubscribe [of ident tok b] unsubscribe_notices [of b ident tok] bal_inv_unsubscribe [of b ident tok] by simp
next
  case Flush
  with assms show ?thesis using abs_flush [of b] flush_notices [of b] bal_inv_flush [of b] by simp
qed (use assms in \<open>auto simp: abs_stakes abs_leaders mtx_inv simp del: spec_exec.simps dest: abs_report intro: bal_inv_update_rtt\<close>)

interpretation bal_registry: simulation "bal_lstep gen_range send" bal_inv spec_step abs_registry
  for gen_range send
proof unfold_locales
  fix b l b' assume inv: "bal_inv b" and step: "bal_lstep gen_range send b l b'"
  show "bal_inv b'"
    using step inv
    by (elim bal_lstepE) (auto dest: bal_exec_refines intro: bal_inv_publish bal_inv_rehash)
  show "spec_step (abs_registry b) l (abs_registry b')"
    using step
  proof cases
    case (lstep_op op effs)
    with bal_exec_refines [OF lstep_op(2) inv] spec_op [of "abs_registry b" op] show ?thesis by simp
  next
    case (lstep_publish rng session signature data w r w' out)
    with publish_refines [OF lstep_publish(2,3) inv] show ?thesis by simp
  next
    case (lstep_rehash m)
    with abs_rehash [OF bal_invD(1) [OF inv]] spec_internal show ?thesis by simp
  qed
qed

lemma abs_new: "abs_registry (balancer_new inbox) = spec_new"
  by (rule abs_registryI) (simp_all add: spec_new_def balancer_new_def rtt_slot_def fun_eq_iff)

lemma card_clients:
  assumes "bal_inv b"
  shows "card (dom (sp_clients (abs_registry b))) = length (tx_consumers b)"
proof -
  have "dom (sp_clients (abs_registry b)) = fst ` set (tx_consumers b)"
    using hm_get_None_iff [of "tx_consumers b"] by (auto simp: dom_def)
  also have "card \<dots> = length (tx_consumers b)"
    using bal_invD(1) [OF assms] unfolding hm_ok_def by (metis distinct_card length_map list.set_map)
  finally show ?thesis .
qed

section \<open>Properties\<close>

text \<open>
  C2. The balancer implements the registry it promises. Every run of the balancer, in any order of
  subscriptions, disconnections, flushes, stake and leader updates, round-trip reports and
  publications, and for any iteration order of its maps, is a run of the specification with the same
  labels: the same operations, the same sessions notified by each of them, and the same lists of
  clients reported as served, which are always connected clients and, together with the clients
  marked for eviction, include every connected leader. What the balancer keeps beside the abstract
  state agrees with it: there is one consumer per connected client, with the stake of the table.
\<close>

theorem balancer_refines_registry:
  assumes "run (bal_lstep gen_range send) (balancer_new inbox) ls b"
  shows "run spec_step spec_new ls (abs_registry b) \<and>
     length (tx_consumers b) = card (dom (sp_clients (abs_registry b))) \<and>
     (\<forall>(ident, c) \<in> set (tx_consumers b). sp_clients (abs_registry b) ident = Some (abs_client c) \<and>
        tc_stake c = (case sp_stakes (abs_registry b) ident of Some w \<Rightarrow> w | None \<Rightarrow> 1))"
proof -
  from bal_registry.run_refines [OF assms bal_inv_new] have "run spec_step spec_new ls (abs_registry b)" and inv: "bal_inv b"
    by (simp_all add: abs_new)
  moreover have "sp_clients (abs_registry b) ident = Some (abs_client c) \<and>
      tc_stake c = (case sp_stakes (abs_registry b) ident of Some w \<Rightarrow> w | None \<Rightarrow> 1)"
    if kc: "(ident, c) \<in> set (tx_consumers b)" for ident c
    using bal_invD(2) [OF inv kc] kc by (auto simp: consumer_ok_def stake_of_def hm_get_iff [OF bal_invD(1) [OF inv]])
  ultimately show ?thesis using card_clients [OF inv] by auto
qed

theorem balancer_refines_registry_witness:
  "\<exists>b. run spec_step spec_new
     [Operation (Subscribe ''v'' ''t1'' 1 1) {}, Operation (Subscribe ''v'' ''t2'' 2 2) {1},
      Operation (Unsubscribe ''v'' ''t1'') {}] (abs_registry b) \<and>
     length (tx_consumers b) = 1"
proof -
  let ?step = "bal_lstep gen_last (\<lambda>ch msg (w :: unit). (True, w))"
  let ?b1 = "fst (subscribe ''v'' ''t1'' 1 1 (balancer_new 0))"
  let ?b2 = "fst (subscribe ''v'' ''t2'' 2 2 ?b1)"
  let ?b3 = "fst (unsubscribe ''v'' ''t1'' ?b2)"
  have inv: "bal_inv (balancer_new 0)" "bal_inv ?b1" "bal_inv ?b2" by (simp_all add: mtx_inv)
  have n1: "set (notices (snd (subscribe ''v'' ''t1'' 1 1 (balancer_new 0)))) = {}"
    unfolding subscribe_notices [OF inv(1)] abs_new by (simp add: spec_new_def signal_of_def)
  have n2: "set (notices (snd (subscribe ''v'' ''t2'' 2 2 ?b1))) = {1}"
    unfolding subscribe_notices [OF inv(2)] abs_subscribe by (simp add: signal_of_def del: abs_registry_simps)
  have n3: "set (notices (snd (unsubscribe ''v'' ''t1'' ?b2))) = {}"
    unfolding unsubscribe_notices [OF inv(3)] abs_subscribe by (simp del: abs_registry_simps)
  have s1: "?step (balancer_new 0) (Operation (Subscribe ''v'' ''t1'' 1 1) {}) ?b1"
    unfolding n1 [symmetric] by (rule lstep_op) simp
  have s2: "?step ?b1 (Operation (Subscribe ''v'' ''t2'' 2 2) {1}) ?b2"
    unfolding n2 [symmetric] by (rule lstep_op) simp
  have s3: "?step ?b2 (Operation (Unsubscribe ''v'' ''t1'') {}) ?b3"
    unfolding n3 [symmetric] by (rule lstep_op) simp
  note snoc = run_snoc [where step = ?step]
  note ref = balancer_refines_registry [OF snoc [OF snoc [OF snoc [OF run_nil s1] s2] s3]]
  have "length (tx_consumers ?b3) = 1"
    by (simp add: fst_unsubscribe owner_def balancer_new_def)
  with ref show ?thesis by auto
qed

end
