(* ===== verification/Auth.thy ===== *)
theory Auth
  imports Mtx_Prelude
begin

text \<open>
  \<^verbatim>\<open>server/auth.rs\<close>: who a request comes from. Signature checking (\<^verbatim>\<open>verify_with_key\<close> of
  the jwt crate), the file system and PEM parsing are parameters: \<open>verify\<close> maps a key and a
  token to its claims or to an error, and nothing is assumed of it. Errors are their messages.

  The lemmas describe the accepted \<^verbatim>\<open>Authorization\<close> headers as a grammar and the principal
  strings that partner lists and metric labels are compared with.
\<close>

section \<open>Claims and principals\<close>

record jwt =
  jwt_iat :: u64
  jwt_exp :: u64
  jwt_pubkey :: "string option"
  jwt_partner :: "string option"

datatype auth = JWT jwt | Allow string

definition jwt_to_string :: "jwt \<Rightarrow> string" where
  "jwt_to_string j =
     (case jwt_partner j of
        Some partner \<Rightarrow> ''JWT:partner:'' @ partner
      | None \<Rightarrow> (case jwt_pubkey j of
          Some pubkey \<Rightarrow> ''JWT:pubkey:'' @ pubkey
        | None \<Rightarrow> ''JWT:Anonymous''))"

fun auth_to_string :: "auth \<Rightarrow> string" where
  "auth_to_string (JWT j) = jwt_to_string j"
| "auth_to_string (Allow identifier) = identifier"

section \<open>Authentication\<close>

definition authorization_header_auth ::
  "('key \<Rightarrow> string \<Rightarrow> string + jwt) \<Rightarrow> 'key \<Rightarrow> string \<Rightarrow> string + auth" where
  "authorization_header_auth verify public_key header =
     (case split_whitespace header of
        [] \<Rightarrow> Inl ''Authorization header must start with 'Bearer '!''
      | w # ws \<Rightarrow>
          if w \<noteq> ''Bearer'' then Inl ''Authorization header must start with 'Bearer '!''
          else case ws of
                 [] \<Rightarrow> Inl ''Bearer token is missing!''
               | [token] \<Rightarrow> (case verify public_key token of
                     Inl err \<Rightarrow> Inl err | Inr claims \<Rightarrow> Inr (JWT claims))
               | _ \<Rightarrow> Inl ''There must be no extra characters after Bearer token!'')"

definition authenticate ::
  "('key \<Rightarrow> string \<Rightarrow> string + jwt) \<Rightarrow> 'key \<Rightarrow> string option \<Rightarrow> string + auth" where
  "authenticate verify public_key header =
     (case header of
        Some h \<Rightarrow> authorization_header_auth verify public_key h
      | None \<Rightarrow> Inl ''Request is not authenticated!'')"

definition load_public_key ::
  "(string \<Rightarrow> string + 'file) \<Rightarrow> ('file \<Rightarrow> string + string) \<Rightarrow> (string \<Rightarrow> string + 'key) \<Rightarrow>
   string \<Rightarrow> string + 'key" where
  "load_public_key open_file read_to_end public_key_from_pem path =
     (case open_file path of
        Inl err \<Rightarrow> Inl err
      | Inr file \<Rightarrow> (case read_to_end file of
          Inl err \<Rightarrow> Inl err
        | Inr buffer \<Rightarrow> public_key_from_pem buffer))"

section \<open>The words of a header\<close>

definition all_white :: "string \<Rightarrow> bool" where
  "all_white s \<longleftrightarrow> (\<forall>c \<in> set s. is_whitespace c)"

lemma all_white_simps [simp]:
  "all_white []" "all_white (c # s) \<longleftrightarrow> is_whitespace c \<and> all_white s"
  "all_white (s @ t) \<longleftrightarrow> all_white s \<and> all_white t"
  by (auto simp: all_white_def)

lemma words_acc_white: "all_white ws \<Longrightarrow> words_acc [] (ws @ s) = words_acc [] s"
  by (induction ws) auto

lemma split_whitespace_white [simp]:
  "all_white ws \<Longrightarrow> split_whitespace (ws @ s) = split_whitespace s"
  "all_white ws \<Longrightarrow> split_whitespace ws = []"
  using words_acc_white [of ws s] words_acc_white [of ws "[]"]
  by (simp_all add: split_whitespace_def)

lemma words_acc_Nil: "words_acc acc s = [] \<longleftrightarrow> acc = [] \<and> all_white s"
  by (induction acc s rule: words_acc.induct) auto

lemma split_whitespace_Nil_iff: "split_whitespace s = [] \<longleftrightarrow> all_white s"
  by (simp add: split_whitespace_def words_acc_Nil)

text \<open>The first word of a text, and what follows it.\<close>

lemma words_acc_Cons:
  assumes "words_acc acc s = w # ws"
  shows "\<exists>pre s'. s = pre @ s' \<and>
    (if acc = [] then \<exists>sp. all_white sp \<and> pre = sp @ w else w = rev acc @ pre) \<and>
    (s' = [] \<or> is_whitespace (hd s')) \<and> words_acc [] s' = ws"
  using assms
proof (induction acc s rule: words_acc.induct)
  case (1 acc)
  then show ?case by (intro exI [of _ "[]"]) (auto split: if_splits)
next
  case (2 acc c cs)
  show ?case
  proof (cases "is_whitespace c")
    case True
    show ?thesis
    proof (cases "acc = []")
      case acc: True
      with 2 True have "\<exists>pre s'. cs = pre @ s' \<and> (\<exists>sp. all_white sp \<and> pre = sp @ w) \<and>
          (s' = [] \<or> is_whitespace (hd s')) \<and> words_acc [] s' = ws" by simp
      then obtain pre sp s' where "cs = pre @ s'" "pre = sp @ w" "all_white sp"
          "s' = [] \<or> is_whitespace (hd s')" "words_acc [] s' = ws" by blast
      with True acc show ?thesis by (intro exI [of _ "c # sp @ w"] exI [of _ s']) (auto intro!: exI [of _ "c # sp"])
    next
      case False
      with 2 True show ?thesis by (intro exI [of _ "[]"] exI [of _ "c # cs"]) auto
    qed
  next
    case False
    with 2 obtain pre s' where "cs = pre @ s'" "w = rev (c # acc) @ pre" "s' = [] \<or> is_whitespace (hd s')"
        "words_acc [] s' = ws" by auto
    with False show ?thesis
      by (intro exI [of _ "c # pre"] exI [of _ s']) (auto intro!: exI [of _ "[]"])
  qed
qed

lemma split_whitespace_ConsE:
  assumes "split_whitespace s = w # ws"
  obtains sp s' where "all_white sp" "s = sp @ w @ s'" "s' = [] \<or> is_whitespace (hd s')" "split_whitespace s' = ws"
  using words_acc_Cons [of "[]" s w ws] assms by (auto simp: split_whitespace_def)

lemma split_whitespace_two_iff:
  "split_whitespace s = [v, w] \<longleftrightarrow>
     no_whitespace v \<and> v \<noteq> [] \<and> no_whitespace w \<and> w \<noteq> [] \<and>
     (\<exists>a b c. all_white a \<and> all_white b \<and> b \<noteq> [] \<and> all_white c \<and> s = a @ v @ b @ w @ c)"
  (is "?l \<longleftrightarrow> ?r")
proof
  assume l: ?l
  then have words: "no_whitespace v \<and> v \<noteq> []" "no_whitespace w \<and> w \<noteq> []"
    using split_whitespace_sound [of _ s] by auto
  from l obtain a s1 where a: "all_white a" "s = a @ v @ s1" "s1 = [] \<or> is_whitespace (hd s1)"
    "split_whitespace s1 = [w]" by (rule split_whitespace_ConsE)
  from a(4) obtain b s2 where b: "all_white b" "s1 = b @ w @ s2" "split_whitespace s2 = []"
    by (rule split_whitespace_ConsE)
  have "b \<noteq> []"
  proof
    assume "b = []"
    with a(3) b(2) words(2) have "is_whitespace (hd w)" by auto
    with words(2) show False by (simp add: no_whitespace_def)
  qed
  with a b words show ?r by (auto simp: split_whitespace_Nil_iff)
next
  assume ?r
  then obtain a b c where v: "no_whitespace v" "v \<noteq> []" and w: "no_whitespace w" "w \<noteq> []"
    and abc: "all_white a" "all_white b" "b \<noteq> []" "all_white c" and s: "s = a @ v @ b @ w @ c" by blast
  have "split_whitespace (w @ c) = [w]"
    using w abc(4) by (cases c) (simp_all add: split_whitespace_Cons_word)
  moreover have "split_whitespace (v @ b @ w @ c) = v # split_whitespace (w @ c)"
    using v abc(2,3) by (cases b) (simp_all add: split_whitespace_Cons_word)
  ultimately show ?l using abc(1) s by simp
qed

lemma authorization_header_auth_simps:
  "split_whitespace h = [''Bearer'', tok] \<Longrightarrow>
     authorization_header_auth verify key h = (case verify key tok of Inl e \<Rightarrow> Inl e | Inr j \<Rightarrow> Inr (JWT j))"
  by (simp add: authorization_header_auth_def)

lemma authenticate_Inr_iff:
  "authenticate verify key hdr = Inr a \<longleftrightarrow>
     (\<exists>h tok j. hdr = Some h \<and> split_whitespace h = [''Bearer'', tok] \<and> verify key tok = Inr j \<and> a = JWT j)"
  by (auto simp: authenticate_def authorization_header_auth_def
      split: option.splits list.splits if_splits sum.splits)

lemma no_whitespace_Bearer: "no_whitespace ''Bearer''"
  by (simp add: no_whitespace_def is_whitespace_def)

section \<open>Principals\<close>

text \<open>A principal is what the claims name first: the partner, else the public key, else nobody.\<close>

definition principal :: "jwt \<Rightarrow> (string + string) option" where
  "principal j = (case jwt_partner j of Some p \<Rightarrow> Some (Inl p)
     | None \<Rightarrow> map_option Inr (jwt_pubkey j))"

lemma jwt_to_string_eq_iff: "jwt_to_string j = jwt_to_string j' \<longleftrightarrow> principal j = principal j'"
  by (auto simp: jwt_to_string_def principal_def split: option.splits)

section \<open>Properties\<close>

text \<open>
  C31. The requests that authenticate. A request is accepted as a principal exactly when its header
  is the word \<^verbatim>\<open>Bearer\<close>, white space and one word the verifier accepts, with optional white space
  around; then the claims are the verified ones, and two accepted requests carry the same
  principal string (the one partner lists and metrics use) exactly when their claims name the same
  partner, or no partner and the same public key, or neither. In every other case the request is
  rejected.
\<close>

theorem authenticate_accepts_exactly_bearer:
  "(authenticate verify key hdr = Inr a \<longleftrightarrow>
     (\<exists>j tok a0 b0 c0. hdr = Some (a0 @ ''Bearer'' @ b0 @ tok @ c0) \<and> all_white a0 \<and> all_white b0 \<and> b0 \<noteq> [] \<and>
        all_white c0 \<and> no_whitespace tok \<and> tok \<noteq> [] \<and> verify key tok = Inr j \<and> a = JWT j)) \<and>
   (auth_to_string (JWT j1) = auth_to_string (JWT j2) \<longleftrightarrow>
     (if jwt_partner j1 = None then jwt_partner j2 = None \<and> jwt_pubkey j1 = jwt_pubkey j2
      else jwt_partner j1 = jwt_partner j2))"
  (is "?accept \<and> ?principal")
proof
  show ?accept
    unfolding authenticate_Inr_iff split_whitespace_two_iff
    using no_whitespace_Bearer by simp blast
  show ?principal
    by (cases "jwt_pubkey j1"; cases "jwt_pubkey j2")
       (auto simp: jwt_to_string_eq_iff principal_def split: option.splits)
qed

end
