(* ===== verification/Rpc_Server.thy ===== *)
theory Rpc_Server
  imports Balancer_Updater Auth
begin

text \<open>
  \<^verbatim>\<open>server/rpc_server.rs\<close>: the JSON-RPC entry of transactions. Every HTTP request gets its
  metadata (who sends it, its number, whether it is forwarded), and the two send methods check,
  decode and publish the transaction.

  Parameters stand for code of other crates: \<open>verify\<close> (jwt), \<open>to_str\<close>
  (\<^verbatim>\<open>HeaderValue::to_str\<close>, \<open>None\<close> for a value with opaque bytes), \<open>base64_decode\<close>,
  \<open>decode_tx\<close> (\<^verbatim>\<open>bincode\<close>: the signatures of the transaction, or an error),
  \<open>sig_to_string\<close> (the Solana SDK), and \<open>gen_range\<close> and \<open>send\<close> of the
  balancer. Clock readings and random bits are arguments; a reading of the wall clock may panic
  (\<open>time_ms\<close>).
\<close>

section \<open>State\<close>

record rpc_state =
  rp_auth :: "string + auth"
  rp_req_id :: nat
  rp_mode :: mode

record send_priority_transaction_config =
  cf_skip_preflight :: "bool option"

datatype error_code = ServerError int | InvalidParams | InternalError | MethodNotFound

record rpc_error =
  er_code :: error_code
  er_message :: string

definition invalid_params :: "string \<Rightarrow> rpc_error" where
  "invalid_params msg = \<lparr>er_code = InvalidParams, er_message = msg\<rparr>"

section \<open>The methods\<close>

definition check_config :: "send_priority_transaction_config option \<Rightarrow> rpc_error + unit" where
  "check_config config =
     (case config of
        Some c \<Rightarrow> (case cf_skip_preflight c of
            Some skip_preflight \<Rightarrow>
              if \<not> skip_preflight
              then Inl \<lparr>er_code = InvalidParams, er_message = ''skipPreflight must be true''\<rparr>
              else Inr ()
          | None \<Rightarrow> Inl \<lparr>er_code = InvalidParams, er_message = ''skipPreflight is mandatory''\<rparr>)
      | None \<Rightarrow> Inl \<lparr>er_code = InvalidParams, er_message = ''config options are mandatory''\<rparr>)"

definition accept_metrics :: "auth \<Rightarrow> mode \<Rightarrow> string \<Rightarrow> metric_op list" where
  "accept_metrics a m data =
     [Gauge_inc SERVER_RPC_TX_ACCEPTED [auth_to_string a, mode_to_string m],
      Counter_inc_by SERVER_RPC_TX_BYTES_IN (usize_as_u64 (length data))]"

definition new_session :: "rpc_state \<Rightarrow> auth \<Rightarrow> instant \<Rightarrow> u64 \<Rightarrow> u64 \<Rightarrow> 's \<Rightarrow> 's signature_record" where
  "new_session meta a created_at ctime rtime signature =
     \<lparr>sr_created_at = created_at, sr_ctime = ctime, sr_rtime = rtime, sr_req_id = rp_req_id meta,
      sr_signature = signature, sr_mode = rp_mode meta, sr_consumers = [], sr_tpu_ips = [],
      sr_partner_name = auth_to_string a\<rparr>"

text \<open>
  What a call leaves: the reply, the metric updates, the balancer, the runtime, and the session
  handed to the signature watcher.
\<close>

type_synonym ('s, 'w) reply =
  "(rpc_error + string) \<times> metric_op list \<times> balancer \<times> 'w \<times> 's signature_record option"

definition send_priority_transaction ::
  "('g \<Rightarrow> u64 \<Rightarrow> u64 \<times> 'g) \<Rightarrow> (chan \<Rightarrow> response_envelope \<Rightarrow> 'w \<Rightarrow> bool \<times> 'w) \<Rightarrow>
   (string \<Rightarrow> 'bytes option) \<Rightarrow> ('bytes \<Rightarrow> string + 's list) \<Rightarrow> ('s \<Rightarrow> string) \<Rightarrow>
   instant \<Rightarrow> u64 outcome \<Rightarrow> u64 outcome \<Rightarrow> 'g \<Rightarrow> rpc_state \<Rightarrow> string \<Rightarrow> send_priority_transaction_config option \<Rightarrow>
   balancer \<Rightarrow> 'w \<Rightarrow> ('s, 'w) reply outcome" where
  "send_priority_transaction gen_range send base64_decode decode_tx sig_to_string
     created_at now_ctime now_rtime rng meta data config b w =
     outcome_bind now_ctime (\<lambda>ctime.
     (case rp_auth meta of
        Inl err \<Rightarrow>
          Done (Inl \<lparr>er_code = ServerError 403, er_message = ''Failed to authenticate''\<rparr>, [], b, w, None)
      | Inr a \<Rightarrow>
     (case check_config config of
        Inl err \<Rightarrow> Done (Inl err, [], b, w, None)
      | Inr _ \<Rightarrow>
     (let ops = accept_metrics a (rp_mode meta) data in
     (case base64_decode data of
        None \<Rightarrow> Panic ''called `Result::unwrap()` on an `Err` value''
      | Some wire_transaction \<Rightarrow>
     (case decode_tx wire_transaction of
        Inl err \<Rightarrow> Done (Inl (invalid_params err), ops, b, w, None)
      | Inr [] \<Rightarrow>
          Done (Inl \<lparr>er_code = InternalError,
                     er_message = ''Failed to get the transaction's signature''\<rparr>, ops, b, w, None)
      | Inr (signature # _) \<Rightarrow>
          if rp_mode meta = BLACKHOLE
          then Done (Inr (sig_to_string signature), ops, b, w, None)
          else outcome_bind now_rtime (\<lambda>rtime.
                 outcome_bind
                   (publish gen_range send rng (new_session meta a created_at ctime rtime signature)
                      (sig_to_string signature) data b w)
                   (\<lambda>(r, b', w', out).
                      Done (case r of
                              Inr _ \<Rightarrow> Inr (sig_to_string signature)
                            | Inl _ \<Rightarrow> Inl \<lparr>er_code = InternalError,
                                           er_message = ''Failed to forward the transaction''\<rparr>,
                            ops, b', w', out)))))))))"

definition send_transaction ::
  "('g \<Rightarrow> u64 \<Rightarrow> u64 \<times> 'g) \<Rightarrow> (chan \<Rightarrow> response_envelope \<Rightarrow> 'w \<Rightarrow> bool \<times> 'w) \<Rightarrow>
   (string \<Rightarrow> 'bytes option) \<Rightarrow> ('bytes \<Rightarrow> string + 's list) \<Rightarrow> ('s \<Rightarrow> string) \<Rightarrow>
   instant \<Rightarrow> u64 outcome \<Rightarrow> u64 outcome \<Rightarrow> 'g \<Rightarrow> rpc_state \<Rightarrow> string \<Rightarrow> send_priority_transaction_config option \<Rightarrow>
   balancer \<Rightarrow> 'w \<Rightarrow> ('s, 'w) reply outcome" where
  "send_transaction = send_priority_transaction"

definition get_health ::
  "(metric_op list \<Rightarrow> metric \<Rightarrow> string list \<Rightarrow> int) \<Rightarrow> metric_op list \<Rightarrow> rpc_error + unit" where
  "get_health get ops =
     (if get ops SERVER_TOTAL_CONNECTED_TX_CONSUMERS [] = 0
      then Inl \<lparr>er_code = ServerError 503, er_message = ''No connected tx consumers''\<rparr>
      else Inr ())"

section \<open>Method dispatch\<close>

text \<open>
  The methods of the \<^verbatim>\<open>Rpc\<close> trait, with the parameters the derived code has parsed. A name the
  handler does not know is answered by the library with \<^verbatim>\<open>MethodNotFound\<close>, as JSON-RPC prescribes.
\<close>

datatype rpc_method =
    SendPriorityTransaction string "send_priority_transaction_config option"
  | SendTransaction string "send_priority_transaction_config option"
  | GetHealth

fun rpc_name :: "rpc_method \<Rightarrow> string" where
  "rpc_name (SendPriorityTransaction data config) = ''sendPriorityTransaction''"
| "rpc_name (SendTransaction data config) = ''sendTransaction''"
| "rpc_name GetHealth = ''getHealth''"

definition get_io_handler ::
  "('g \<Rightarrow> u64 \<Rightarrow> u64 \<times> 'g) \<Rightarrow> (chan \<Rightarrow> response_envelope \<Rightarrow> 'w \<Rightarrow> bool \<times> 'w) \<Rightarrow>
   (string \<Rightarrow> 'bytes option) \<Rightarrow> ('bytes \<Rightarrow> string + 's list) \<Rightarrow> ('s \<Rightarrow> string) \<Rightarrow>
   (metric_op list \<Rightarrow> metric \<Rightarrow> string list \<Rightarrow> int) \<Rightarrow> instant \<Rightarrow> u64 outcome \<Rightarrow> u64 outcome \<Rightarrow> 'g \<Rightarrow> rpc_state \<Rightarrow>
   rpc_method option \<Rightarrow> metric_op list \<Rightarrow> balancer \<Rightarrow> 'w \<Rightarrow> ('s, 'w) reply outcome" where
  "get_io_handler gen_range send base64_decode decode_tx sig_to_string get_gauge created_at ctime rtime rng meta meth ops b w =
     (case meth of
        None \<Rightarrow> Done (Inl \<lparr>er_code = MethodNotFound, er_message = ''Method not found''\<rparr>, [], b, w, None)
      | Some (SendPriorityTransaction data config) \<Rightarrow>
          send_priority_transaction gen_range send base64_decode decode_tx sig_to_string created_at ctime rtime rng meta data config b w
      | Some (SendTransaction data config) \<Rightarrow>
          send_transaction gen_range send base64_decode decode_tx sig_to_string created_at ctime rtime rng meta data config b w
      | Some GetHealth \<Rightarrow>
          Done (case get_health get_gauge ops of Inr _ \<Rightarrow> Inr ''null'' | Inl err \<Rightarrow> Inl err, [], b, w, None))"

text \<open>\<^verbatim>\<open>GET /health\<close> of the HTTP server is answered by this method.\<close>

definition health_api :: "string \<times> string" where
  "health_api = (''/health'', rpc_name GetHealth)"

section \<open>Metadata of a request\<close>

definition select_mode :: "bool \<Rightarrow> auth option \<Rightarrow> string list \<Rightarrow> mode" where
  "select_mode coin a partners =
     (case a of
        Some x \<Rightarrow> if auth_to_string x \<in> set partners \<and> coin then BLACKHOLE else FORWARD
      | None \<Rightarrow> FORWARD)"

record 'key rpc_listener =
  rl_public_key :: "'key option"
  rl_partners :: "string list"
  rl_req_id_gen :: nat

text \<open>\<open>start_http\<close> binds the listening socket, the last thing that can fail.\<close>

definition spawn_rpc_server ::
  "(string \<Rightarrow> string + 'key) \<Rightarrow> ('addr \<Rightarrow> bool) \<Rightarrow> 'addr \<Rightarrow> string option \<Rightarrow> string list option \<Rightarrow>
   'key rpc_listener outcome" where
  "spawn_rpc_server load_key start_http rpc_addr jwt_public_key_path test_partners =
     outcome_bind
       (case jwt_public_key_path of
          None \<Rightarrow> Done None
        | Some path \<Rightarrow> (case load_key path of
            Inl err \<Rightarrow> Panic ''Failed to load public key used to verify JWTs''
          | Inr key \<Rightarrow> Done (Some key)))
       (\<lambda>public_key.
          let partners = (case test_partners of Some ps \<Rightarrow> ps | None \<Rightarrow> []);
              listener = \<lparr>rl_public_key = public_key, rl_partners = partners, rl_req_id_gen = 0\<rparr>
          in if start_http rpc_addr then Done listener else Panic ''Unable to start TCP RPC server'')"

definition meta_extractor ::
  "('key \<Rightarrow> string \<Rightarrow> string + jwt) \<Rightarrow> ('hv \<Rightarrow> string option) \<Rightarrow> bool \<Rightarrow> 'hv option \<Rightarrow>
   'key rpc_listener \<Rightarrow> (rpc_state \<times> 'key rpc_listener) outcome" where
  "meta_extractor verify to_str coin header l =
     outcome_bind
       (case header of
          None \<Rightarrow> Done None
        | Some hv \<Rightarrow> (case to_str hv of
            None \<Rightarrow> Panic ''called `Result::unwrap()` on an `Err` value''
          | Some s \<Rightarrow> Done (Some s)))
       (\<lambda>auth_header.
          let (a, m) =
            (case rl_public_key l of
               Some public_key \<Rightarrow>
                 (let a = authenticate verify public_key auth_header
                  in (a, select_mode coin (case a of Inr x \<Rightarrow> Some x | Inl _ \<Rightarrow> None) (rl_partners l)))
             | None \<Rightarrow>
                 (Inr (Allow (case auth_header of Some from \<Rightarrow> from | None \<Rightarrow> ''unknown'')), FORWARD))
          in Done (\<lparr>rp_auth = a, rp_req_id = rl_req_id_gen l, rp_mode = m\<rparr>,
                   l\<lparr>rl_req_id_gen := (rl_req_id_gen l + 1) mod 2 ^ 64\<rparr>))"

section \<open>Lemmas\<close>

lemma check_config_Inr [simp]:
  "check_config config = Inr () \<longleftrightarrow> (\<exists>c. config = Some c \<and> cf_skip_preflight c = Some True)"
  by (auto simp: check_config_def split: option.splits)

lemma check_config_Inl: "check_config config = Inl e \<Longrightarrow> er_code e = InvalidParams"
  by (auto simp: check_config_def split: option.splits if_splits)

text \<open>The calls that reach decoding, and what decoding yields.\<close>

definition admitted :: "rpc_state \<Rightarrow> send_priority_transaction_config option \<Rightarrow> bool" where
  "admitted meta config \<longleftrightarrow>
     (\<exists>a. rp_auth meta = Inr a) \<and> (\<exists>c. config = Some c \<and> cf_skip_preflight c = Some True)"

definition first_signature ::
  "(string \<Rightarrow> 'bytes option) \<Rightarrow> ('bytes \<Rightarrow> string + 's list) \<Rightarrow> string \<Rightarrow> 's option" where
  "first_signature base64_decode decode_tx data =
     (case base64_decode data of
        Some wire \<Rightarrow> (case decode_tx wire of Inr (s # _) \<Rightarrow> Some s | _ \<Rightarrow> None)
      | None \<Rightarrow> None)"

lemmas send_splits = option.splits sum.splits list.splits if_splits

lemma forward_result:
  "outcome_bind m (\<lambda>(r, b', w', out). Done (case r of Inr _ \<Rightarrow> Inr x | Inl _ \<Rightarrow> Inl e, ops, b', w', out)) =
     Done (res, ops', b', w', out) \<longleftrightarrow>
   ops' = ops \<and> (m = Done (Inr (), b', w', out) \<and> res = Inr x \<or>
     (\<exists>msg. m = Done (Inl msg, b', w', out)) \<and> res = Inl e)"
proof (cases m)
  case (Done v)
  obtain r bb ww oo where "v = (r, bb, ww, oo)" by (cases v)
  with Done show ?thesis by (cases r) auto
qed simp

lemma publish_ErrD:
  "publish gen_range send rng session signature data b w = Done (Inl e, b', w', out) \<Longrightarrow>
     b' = b \<and> w' = w \<and> out = None"
  by (erule publish_cases) auto

lemma send_Inl:
  assumes "send_priority_transaction gen_range send b64 dec str created ctime rtime rng meta data config b w =
     Done (Inl err, ops, b', w', out)"
  shows "b' = b \<and> w' = w \<and> out = None"
  using assms
  by (cases ctime; cases rtime)
     (auto simp: send_priority_transaction_def Let_def forward_result simp del: outcome_bind_Done_iff
      dest: publish_ErrD split: send_splits)

lemma send_Inr:
  assumes "send_priority_transaction gen_range send b64 dec str created ctime rtime rng meta data config b w =
     Done (Inr s, ops, b', w', out)"
  obtains a sg ct where "rp_auth meta = Inr a" "admitted meta config" "first_signature b64 dec data = Some sg"
    "s = str sg" "ops = accept_metrics a (rp_mode meta) data" "ctime = Done ct"
    "if rp_mode meta = BLACKHOLE then b' = b \<and> w' = w \<and> out = None
     else \<exists>rt. rtime = Done rt \<and>
       publish gen_range send rng (new_session meta a created ct rt sg) (str sg) data b w = Done (Inr (), b', w', out)"
  using assms that
  by (cases ctime; cases rtime)
     (auto simp: send_priority_transaction_def admitted_def first_signature_def Let_def forward_result
      simp del: outcome_bind_Done_iff split: send_splits)

lemma send_admitted:
  assumes "rp_auth meta = Inr a" "admitted meta config" "first_signature b64 dec data = Some sg"
    "rp_mode meta = FORWARD"
  shows "send_priority_transaction gen_range send b64 dec str created (Done ct) (Done rt) rng meta data config b w =
     outcome_bind (publish gen_range send rng (new_session meta a created ct rt sg) (str sg) data b w)
       (\<lambda>(r, b', w', out). Done (case r of Inr _ \<Rightarrow> Inr (str sg)
          | Inl _ \<Rightarrow> Inl \<lparr>er_code = InternalError, er_message = ''Failed to forward the transaction''\<rparr>,
          accept_metrics a FORWARD data, b', w', out))"
  using assms
  by (auto simp: send_priority_transaction_def admitted_def first_signature_def check_config_def Let_def
      split: option.split_asm sum.split_asm list.split_asm)

lemma send_error_ops:
  assumes "send_priority_transaction gen_range send b64 dec str created ctime rtime rng meta data config b w =
     Done (Inl err, ops, b', w', out)"
  shows "ops = (case rp_auth meta of
       Inr a \<Rightarrow> if map_option cf_skip_preflight config = Some (Some True) then accept_metrics a (rp_mode meta) data else []
     | Inl _ \<Rightarrow> [])"
  using assms
  by (cases ctime; cases rtime)
     (auto simp: send_priority_transaction_def check_config_def Let_def forward_result simp del: outcome_bind_Done_iff
      split: send_splits)

lemma send_error_code:
  assumes "send_priority_transaction gen_range send b64 dec str created ctime rtime rng meta data config b w =
     Done (Inl err, ops, b', w', out)"
  shows "(er_code err = ServerError 403 \<longleftrightarrow> (\<exists>e. rp_auth meta = Inl e)) \<and>
     (er_code err = InvalidParams \<longleftrightarrow> (\<exists>a. rp_auth meta = Inr a) \<and>
        (map_option cf_skip_preflight config \<noteq> Some (Some True) \<or> (\<exists>wire e. b64 data = Some wire \<and> dec wire = Inl e))) \<and>
     er_code err \<in> {ServerError 403, InvalidParams, InternalError}"
  using assms
  by (cases ctime; cases rtime)
     (auto simp: send_priority_transaction_def check_config_def invalid_params_def Let_def forward_result
      simp del: outcome_bind_Done_iff split: send_splits)

lemma publish_loop_session:
  "publish_loop send signature data ps session b w = (session', b', w') \<Longrightarrow>
     \<exists>cs ips. session' = session\<lparr>sr_consumers := cs, sr_tpu_ips := ips\<rparr>"
proof (induction send signature data ps session b w arbitrary: session' rule: publish_loop.induct)
  case (1 send signature data session b w)
  then show ?case by (intro exI [of _ "sr_consumers session"] exI [of _ "sr_tpu_ips session"]) simp
next
  case (2 send signature data c info ps session b w)
  obtain ok w1 where s: "send (tc_tx c) (build_tx_message_envelope signature data (hs_collect (map li_tpu info))) w = (ok, w1)"
    by fastforce
  show ?case
    using "2.IH"(1) [OF refl refl refl s [symmetric]] "2.IH"(2) [OF refl refl refl s [symmetric]] "2.prems" s
    by (cases ok) fastforce+
qed

lemma publish_session:
  "publish gen_range send rng session signature data b w = Done (Inr (), b', w', out) \<Longrightarrow>
     \<exists>cs ips. out = Some (session\<lparr>sr_consumers := cs, sr_tpu_ips := ips\<rparr>)"
  by (erule publish_cases) (auto dest: publish_loop_session)

lemma publish_Panic_iff:
  "publish gen_range send rng session signature data b w = Panic e \<longleftrightarrow>
     pick_consumers gen_range rng b = Panic e"
  by (cases "pick_consumers gen_range rng b") (auto simp: publish_def split: prod.splits)

lemma forward_Panic_iff:
  "outcome_bind m (\<lambda>(r, b', w', out). Done (g r, ops, b', w', out)) = Panic e \<longleftrightarrow> m = Panic e"
  by (cases m) auto

lemma send_Panic_iff:
  "(\<exists>e. send_priority_transaction gen_range send b64 dec str created ctime rtime rng meta data config b w = Panic e) \<longleftrightarrow>
     (\<exists>e. ctime = Panic e) \<or> admitted meta config \<and> (b64 data = None \<or>
       rp_mode meta = FORWARD \<and> first_signature b64 dec data \<noteq> None \<and>
         ((\<exists>e. rtime = Panic e) \<or> (\<exists>e. pick_consumers gen_range rng b = Panic e)))"
  by (cases ctime; cases rtime; cases "rp_mode meta")
     (auto simp: send_priority_transaction_def admitted_def first_signature_def check_config_def Let_def
       forward_Panic_iff publish_Panic_iff split: option.splits sum.splits list.splits)

lemma meta_extractor_Done:
  "meta_extractor verify to_str coin hdr l = Done (meta, l') \<longleftrightarrow>
     (\<exists>h. (case hdr of None \<Rightarrow> h = None | Some hv \<Rightarrow> h = to_str hv \<and> h \<noteq> None) \<and>
       rp_req_id meta = rl_req_id_gen l \<and> l' = l\<lparr>rl_req_id_gen := (rl_req_id_gen l + 1) mod 2 ^ 64\<rparr> \<and>
       (case rl_public_key l of
          None \<Rightarrow> rp_auth meta = Inr (Allow (case h of Some x \<Rightarrow> x | None \<Rightarrow> ''unknown'')) \<and> rp_mode meta = FORWARD
        | Some key \<Rightarrow> rp_auth meta = authenticate verify key h \<and>
            rp_mode meta = select_mode coin (case rp_auth meta of Inr x \<Rightarrow> Some x | Inl _ \<Rightarrow> None) (rl_partners l)))"
  by (cases meta) (auto simp: meta_extractor_def Let_def split: option.splits)

subsection \<open>The consumer gauge\<close>

definition gauge_ok :: "(metric_op list \<Rightarrow> metric \<Rightarrow> string list \<Rightarrow> int) \<Rightarrow> metric_op list \<Rightarrow> balancer \<Rightarrow> bool" where
  "gauge_ok get ops b \<longleftrightarrow>
     get ops SERVER_TOTAL_CONNECTED_TX_CONSUMERS [] = int (length (tx_consumers b))"

lemma gauge_ok_recalc:
  assumes "gauge_law get" and "length (tx_consumers b) < 2 ^ 63"
  shows "gauge_ok get (ops @ metric_ops (snd (recalc_total_connected_stake b))) (fst (recalc_total_connected_stake b))"
proof -
  from assms(2) have "as_i64 (usize_as_u64 (length (tx_consumers b))) = int (length (tx_consumers b))"
    by (simp add: as_i64_small unat_usize_as_u64)
  then show ?thesis
    using assms(1) by (simp add: gauge_ok_def recalc_total_connected_stake_def gauge_law_set_skip)
qed

lemma gauge_ok_subscribe:
  assumes "gauge_law get" and "length (tx_consumers b) < 2 ^ 63 - 1"
  shows "gauge_ok get (ops @ metric_ops (snd (subscribe ident tok tx tu b))) (fst (subscribe ident tok tx tu b))"
proof -
  have "length (hm_insert ident c (tx_consumers b)) < 2 ^ 63" for c
    using assms(2) length_hm_insert [of ident c "tx_consumers b"] by simp
  then show ?thesis
    using gauge_ok_recalc [OF assms(1)] assms(2)
    by (auto simp: subscribe_def Let_def case_prod_beta split: option.split)
qed

lemma gauge_ok_unsubscribe:
  assumes "gauge_law get" and "length (tx_consumers b) < 2 ^ 63" and "gauge_ok get ops b"
  shows "gauge_ok get (ops @ metric_ops (snd (unsubscribe ident tok b))) (fst (unsubscribe ident tok b))"
proof -
  have "length (hm_remove ident (tx_consumers b)) < 2 ^ 63"
    using assms(2) by (auto simp: hm_remove_def intro: le_less_trans [OF length_filter_le])
  then show ?thesis
    using gauge_ok_recalc [OF assms(1)] assms(3)
    by (auto simp: unsubscribe_def Let_def case_prod_beta split: option.split)
qed

lemma length_unsubscribe: "length (tx_consumers (fst (unsubscribe ident tok b))) \<le> length (tx_consumers b)"
  by (auto simp: fst_unsubscribe hm_remove_def split: option.split intro: length_filter_le)

lemma gauge_ok_unsubscribe_all:
  "gauge_law get \<Longrightarrow> length (tx_consumers b) < 2 ^ 63 \<Longrightarrow> gauge_ok get ops b \<Longrightarrow>
     gauge_ok get (ops @ metric_ops (snd (unsubscribe_all es b))) (fst (unsubscribe_all es b))"
proof (induction es arbitrary: b ops)
  case (Cons e es)
  obtain ident tok where e: "e = (ident, tok)" by fastforce
  from Cons.IH [OF Cons.prems(1) _ gauge_ok_unsubscribe [OF Cons.prems], of ident tok]
    length_unsubscribe [of ident tok b] Cons.prems(2)
  show ?case by (simp add: e Let_def case_prod_beta)
qed simp

lemma get_health_iff: "gauge_ok get ops b \<Longrightarrow> get_health get ops = Inr () \<longleftrightarrow> tx_consumers b \<noteq> []"
  by (simp add: gauge_ok_def get_health_def)

section \<open>Properties\<close>

text \<open>
  C12. The account of a send call that does not panic. An error reply means that nothing was sent,
  flagged or handed to the watcher. Its code tells the cause: 403 exactly when the request was not
  authenticated, invalid parameters exactly when it was but does not ask to skip preflight or its
  payload does not decode, and an internal error otherwise. A request that is authenticated and
  skips preflight is counted once with its principal, mode and size, whatever the reply; no other
  request is counted. A success reply is the printed first signature of the decoded transaction; a
  blackholed request leaves everything else alone, and a forwarded one was published, with one
  watched session that names the request, its clock readings, its principal and its signature.
\<close>

theorem send_reply_accounts_for_request:
  assumes "send_priority_transaction gen_range send b64 dec str created ctime rtime rng meta data config b w =
     Done (r, ops, b', w', out)"
  shows "ops = (case rp_auth meta of
         Inr a \<Rightarrow> if map_option cf_skip_preflight config = Some (Some True)
           then [Gauge_inc SERVER_RPC_TX_ACCEPTED [auth_to_string a, mode_to_string (rp_mode meta)],
                 Counter_inc_by SERVER_RPC_TX_BYTES_IN (usize_as_u64 (length data))] else []
       | Inl _ \<Rightarrow> []) \<and>
     (case r of
       Inl err \<Rightarrow> b' = b \<and> w' = w \<and> out = None \<and> (er_code err = ServerError 403 \<longleftrightarrow> (\<exists>e. rp_auth meta = Inl e)) \<and>
         (er_code err = InvalidParams \<longleftrightarrow> (\<exists>a. rp_auth meta = Inr a) \<and>
            (map_option cf_skip_preflight config \<noteq> Some (Some True) \<or> (\<exists>wire e. b64 data = Some wire \<and> dec wire = Inl e))) \<and>
         er_code err \<in> {ServerError 403, InvalidParams, InternalError}
     | Inr s \<Rightarrow> \<exists>a sg wire sgs. rp_auth meta = Inr a \<and> b64 data = Some wire \<and> dec wire = Inr (sg # sgs) \<and> s = str sg \<and>
         (if rp_mode meta = BLACKHOLE then b' = b \<and> w' = w \<and> out = None
          else \<exists>ct rt cs ips. ctime = Done ct \<and> rtime = Done rt \<and>
            publish gen_range send rng (new_session meta a created ct rt sg) (str sg) data b w = Done (Inr (), b', w', out) \<and>
            out = Some \<lparr>sr_created_at = created, sr_ctime = ct, sr_rtime = rt,
               sr_req_id = rp_req_id meta, sr_signature = sg, sr_mode = FORWARD, sr_consumers = cs,
               sr_tpu_ips = ips, sr_partner_name = auth_to_string a\<rparr>))"
proof (cases r)
  case (Inl err)
  have "ops = (case rp_auth meta of
         Inr a \<Rightarrow> if map_option cf_skip_preflight config = Some (Some True) then accept_metrics a (rp_mode meta) data else []
       | Inl _ \<Rightarrow> [])"
    using assms unfolding Inl by (rule send_error_ops)
  moreover have "(er_code err = ServerError 403 \<longleftrightarrow> (\<exists>e. rp_auth meta = Inl e)) \<and>
      (er_code err = InvalidParams \<longleftrightarrow> (\<exists>a. rp_auth meta = Inr a) \<and>
         (map_option cf_skip_preflight config \<noteq> Some (Some True) \<or> (\<exists>wire e. b64 data = Some wire \<and> dec wire = Inl e))) \<and>
      er_code err \<in> {ServerError 403, InvalidParams, InternalError}"
    using assms unfolding Inl by (rule send_error_code)
  ultimately show ?thesis using send_Inl [OF assms [unfolded Inl]] unfolding Inl sum.case accept_metrics_def by blast
next
  case (Inr s)
  from assms [unfolded Inr] obtain a sg ct where a: "rp_auth meta = Inr a" "s = str sg" "ctime = Done ct"
    "first_signature b64 dec data = Some sg" "ops = accept_metrics a (rp_mode meta) data" "admitted meta config"
    and pub: "if rp_mode meta = BLACKHOLE then b' = b \<and> w' = w \<and> out = None
     else \<exists>rt. rtime = Done rt \<and>
       publish gen_range send rng (new_session meta a created ct rt sg) (str sg) data b w = Done (Inr (), b', w', out)"
    by (rule send_Inr)
  from a(4) obtain wire sgs where wire: "b64 data = Some wire" "dec wire = Inr (sg # sgs)"
    by (auto simp: first_signature_def split: send_splits)
  have ops: "ops = [Gauge_inc SERVER_RPC_TX_ACCEPTED [auth_to_string a, mode_to_string (rp_mode meta)],
      Counter_inc_by SERVER_RPC_TX_BYTES_IN (usize_as_u64 (length data))]"
    using a(5) by (simp add: accept_metrics_def)
  have skip: "map_option cf_skip_preflight config = Some (Some True)" using a(6) by (auto simp: admitted_def)
  show ?thesis
  proof (cases "rp_mode meta")
    case BLACKHOLE
    with pub a(1,2) wire ops skip show ?thesis by (simp add: Inr)
  next
    case FORWARD
    with pub obtain rt where "rtime = Done rt"
      and pub: "publish gen_range send rng (new_session meta a created ct rt sg) (str sg) data b w = Done (Inr (), b', w', out)" by auto
    with publish_session [OF pub] FORWARD a(1-3) wire ops skip show ?thesis by (auto simp: Inr new_session_def)
  qed
qed

definition b64_demo :: "string \<Rightarrow> string option" where
  "b64_demo data = (if data = ''!'' then None else Some data)"

definition dec_demo :: "string \<Rightarrow> string + string list" where
  "dec_demo wire = (if wire = [] then Inl ''eof'' else Inr [wire])"

definition meta_demo :: "mode \<Rightarrow> rpc_state" where
  "meta_demo m = \<lparr>rp_auth = Inr (Allow ''p''), rp_req_id = 7, rp_mode = m\<rparr>"

theorem send_reply_accounts_for_request_witness:
  "\<exists>b' w' s out. send_priority_transaction gen_last (channel_send (\<lambda>ch. True)) b64_demo dec_demo id 0 (Done 1) (Done 2) ()
       (meta_demo FORWARD) ''tx'' (Some \<lparr>cf_skip_preflight = Some True\<rparr>) (with_leaders [''x'', ''y'', ''z'']) [] =
       Done (Inr ''tx'', accept_metrics (Allow ''p'') FORWARD ''tx'', b', w', Some out) \<and> sr_req_id out = 7"
proof -
  let ?b = "with_leaders [''x'', ''y'', ''z'']"
  obtain ps where ps: "pick_consumers gen_last () ?b = Done ps" "ps \<noteq> []"
    using with_leaders_pick [of "[''x'', ''y'', ''z'']"] by (auto simp: N_CONSUMERS_def)
  let ?s = "new_session (meta_demo FORWARD) (Allow ''p'') 0 1 2 ''tx''"
  obtain b' w' session' where "publish_loop (channel_send (\<lambda>ch. True)) ''tx'' ''tx'' ps ?s ?b [] = (session', b', w')"
    by (rule prod_cases3)
  with ps have call: "send_priority_transaction gen_last (channel_send (\<lambda>ch. True)) b64_demo dec_demo id 0 (Done 1) (Done 2) ()
       (meta_demo FORWARD) ''tx'' (Some \<lparr>cf_skip_preflight = Some True\<rparr>) ?b [] =
       Done (Inr ''tx'', accept_metrics (Allow ''p'') FORWARD ''tx'', b', w', Some session')"
    by (subst send_admitted [where a = "Allow ''p''" and sg = "''tx''"])
       (simp_all add: meta_demo_def admitted_def first_signature_def b64_demo_def dec_demo_def publish_def)
  from send_reply_accounts_for_request [OF call] call show ?thesis
    by (auto simp: meta_demo_def)
qed

text \<open>
  When a call takes the server down. A send call panics, and with it the whole process exits,
  exactly when the wall clock is before 1970, or the request is authenticated and asks to skip
  preflight, and either the payload is not valid base64, or the transaction decodes, is to be
  forwarded, and the choice of consumers panics. In particular one authenticated request with a malformed payload stops the server.
\<close>

theorem send_panics_iff:
  "(\<exists>e. send_priority_transaction gen_range send b64 dec str created (time_ms now1) (time_ms now2) rng meta data config b w = Panic e) \<longleftrightarrow>
     now1 < 0 \<or> (\<exists>a. rp_auth meta = Inr a) \<and> map_option cf_skip_preflight config = Some (Some True) \<and>
     (b64 data = None \<or>
      rp_mode meta = FORWARD \<and> (\<exists>wire sg sgs. b64 data = Some wire \<and> dec wire = Inr (sg # sgs)) \<and>
        (now2 < 0 \<or> (\<exists>e. pick_consumers gen_range rng b = Panic e)))"
  unfolding send_Panic_iff time_ms_Panic admitted_def first_signature_def
  by (auto split: option.splits sum.splits list.splits)

text \<open>
  Success does not mean delivery. When the channels of all chosen consumers are closed, a
  forwarded request still gets its signature as a success reply although no client received
  anything; the session handed to the watcher names no consumer.
\<close>

theorem send_succeeds_without_delivery:
  assumes "rp_auth meta = Inr a" and "rp_mode meta = FORWARD"
    and "config = Some \<lparr>cf_skip_preflight = Some True\<rparr>"
    and "b64 data = Some wire" and "dec wire = Inr (sg # sgs)"
    and "pick_consumers gen_range rng b = Done ps" and "ps \<noteq> []"
  shows "\<exists>ops b' session. send_priority_transaction gen_range (channel_send (\<lambda>ch. False)) b64 dec str
       created (Done ctime) (Done rtime) rng meta data config b w = Done (Inr (str sg), ops, b', w, Some session) \<and>
     sr_consumers session = []"
proof -
  let ?s = "new_session meta a created ctime rtime sg"
  from publish_loop_channel [of "\<lambda>ch. False" "str sg" data ps ?s b w] obtain session' b' where
    "publish_loop (channel_send (\<lambda>ch. False)) (str sg) data ps ?s b w = (session', b', w)"
    and "sr_consumers session' = []"
    by (auto simp: new_session_def)
  moreover from this(1) assms(6,7) have pub:
    "publish gen_range (channel_send (\<lambda>ch. False)) rng ?s (str sg) data b w = Done (Inr (), b', w, Some session')"
    by (simp add: publish_def)
  moreover have "admitted meta config" "first_signature b64 dec data = Some sg"
    using assms by (simp_all add: admitted_def first_signature_def)
  ultimately show ?thesis by (simp add: send_admitted [OF assms(1) _ _ assms(2)])
qed

theorem send_succeeds_without_delivery_witness:
  "\<exists>ops b' session. send_priority_transaction gen_last (channel_send (\<lambda>ch. False)) b64_demo dec_demo id
       0 (Done 1) (Done 2) () (meta_demo FORWARD) ''tx'' (Some \<lparr>cf_skip_preflight = Some True\<rparr>)
       (with_leaders [''x'', ''y'', ''z'']) [] = Done (Inr ''tx'', ops, b', [], Some session) \<and>
     sr_consumers session = []"
proof -
  obtain ps where ps: "pick_consumers gen_last () (with_leaders [''x'', ''y'', ''z'']) = Done ps" "ps \<noteq> []"
    using with_leaders_pick [of "[''x'', ''y'', ''z'']"] by (auto simp: N_CONSUMERS_def)
  show ?thesis
    using send_succeeds_without_delivery [of "meta_demo FORWARD" "Allow ''p''" _ b64_demo "''tx''" "''tx''" dec_demo
        "''tx''" "[]", OF _ _ refl _ _ ps, of id 0 1 2 "[]"]
    by (simp add: meta_demo_def b64_demo_def dec_demo_def)
qed

text \<open>
  C11. Only authenticated traffic is forwarded. With a public key configured, a request whose
  transaction is handed to clients carried a bearer token the verifier accepted under that key; the
  watched session is filed under the principal of the verified claims and under the number the
  listener gave the request; and if the principal is a listed test partner, the coin of this
  request said to forward.
\<close>

theorem forwarded_requests_are_authenticated:
  assumes "rl_public_key l = Some key"
    and "outcome_bind (meta_extractor verify to_str coin hdr l) (\<lambda>(meta, l').
       send_priority_transaction gen_range send b64 dec str created ctime rtime rng meta data config b w) =
       Done (r, ops, b', w', Some session)"
  shows "\<exists>hv h tok j. hdr = Some hv \<and> to_str hv = Some h \<and> split_whitespace h = [''Bearer'', tok] \<and>
     verify key tok = Inr j \<and> sr_partner_name session = jwt_to_string j \<and> sr_req_id session = rl_req_id_gen l \<and>
     \<not> (coin \<and> jwt_to_string j \<in> set (rl_partners l))"
proof -
  from assms(2) obtain meta l' where meta: "meta_extractor verify to_str coin hdr l = Done (meta, l')"
    and send: "send_priority_transaction gen_range send b64 dec str created ctime rtime rng meta data config b w =
      Done (r, ops, b', w', Some session)" by auto
  from send obtain s where r: "r = Inr s" by (cases r) (auto dest: send_Inl)
  from send [unfolded r] obtain a sg ct rt where a: "rp_auth meta = Inr a" and mode: "rp_mode meta = FORWARD"
    and pub: "publish gen_range send rng (new_session meta a created ct rt sg) (str sg) data b w =
      Done (Inr (), b', w', Some session)"
    by (elim send_Inr) (cases "rp_mode meta", auto)
  from publish_session [OF pub] have session: "sr_partner_name session = auth_to_string a"
    "sr_req_id session = rp_req_id meta" by (auto simp: new_session_def)
  from meta assms(1) a obtain h where h: "case hdr of None \<Rightarrow> h = None | Some hv \<Rightarrow> h = to_str hv \<and> h \<noteq> None"
    "authenticate verify key h = Inr a" "rp_req_id meta = rl_req_id_gen l"
    "select_mode coin (Some a) (rl_partners l) = FORWARD"
    unfolding meta_extractor_Done using mode by auto
  from h(2) obtain x tok j where "h = Some x" "split_whitespace x = [''Bearer'', tok]"
    "verify key tok = Inr j" "a = JWT j" unfolding authenticate_Inr_iff by blast
  moreover from this h(1) obtain hv where "hdr = Some hv" "to_str hv = Some x" by (cases hdr) auto
  ultimately show ?thesis
    using session h(3,4) by (auto simp: select_mode_def split: if_splits)
qed

definition verify_demo :: "unit \<Rightarrow> string \<Rightarrow> string + jwt" where
  "verify_demo key tok =
     (if tok = ''good'' then Inr \<lparr>jwt_iat = 0, jwt_exp = 0, jwt_pubkey = None, jwt_partner = Some ''acme''\<rparr>
      else Inl ''bad signature'')"

theorem forwarded_requests_are_authenticated_witness:
  "\<exists>r ops b' w' session. outcome_bind (meta_extractor verify_demo Some False (Some ''Bearer good'')
       \<lparr>rl_public_key = Some (), rl_partners = [''JWT:partner:acme''], rl_req_id_gen = 3\<rparr>) (\<lambda>(meta, l').
       send_priority_transaction gen_last (channel_send (\<lambda>ch. True)) b64_demo dec_demo id 0 (Done 1) (Done 2) () meta ''tx''
         (Some \<lparr>cf_skip_preflight = Some True\<rparr>) (with_leaders [''x'', ''y'', ''z'']) []) =
       Done (r, ops, b', w', Some session) \<and> sr_partner_name session = ''JWT:partner:acme''"
proof -
  let ?b = "with_leaders [''x'', ''y'', ''z'']"
  let ?l = "\<lparr>rl_public_key = Some (), rl_partners = [''JWT:partner:acme''], rl_req_id_gen = 3\<rparr>"
  let ?j = "\<lparr>jwt_iat = 0, jwt_exp = 0, jwt_pubkey = None, jwt_partner = Some ''acme''\<rparr>"
  let ?meta = "\<lparr>rp_auth = Inr (JWT ?j), rp_req_id = 3, rp_mode = FORWARD\<rparr>"
  have words: "split_whitespace ''Bearer good'' = [''Bearer'', ''good'']"
    by (simp add: split_whitespace_def is_whitespace_def)
  have meta: "meta_extractor verify_demo Some False (Some ''Bearer good'') ?l =
      Done (?meta, ?l\<lparr>rl_req_id_gen := 4\<rparr>)"
    by (simp add: meta_extractor_def authenticate_def authorization_header_auth_def words verify_demo_def select_mode_def)
  obtain ps where ps: "pick_consumers gen_last () ?b = Done ps" "ps \<noteq> []"
    using with_leaders_pick [of "[''x'', ''y'', ''z'']"] by (auto simp: N_CONSUMERS_def)
  obtain b' w' session where
    "publish_loop (channel_send (\<lambda>ch. True)) ''tx'' ''tx'' ps (new_session ?meta (JWT ?j) 0 1 2 ''tx'') ?b [] = (session, b', w')"
    by (rule prod_cases3)
  with ps have send: "send_priority_transaction gen_last (channel_send (\<lambda>ch. True)) b64_demo dec_demo id 0 (Done 1) (Done 2) () ?meta ''tx''
         (Some \<lparr>cf_skip_preflight = Some True\<rparr>) ?b [] = Done (Inr ''tx'', accept_metrics (JWT ?j) FORWARD ''tx'', b', w', Some session)"
    by (subst send_admitted [where a = "JWT ?j" and sg = "''tx''"])
       (simp_all add: admitted_def first_signature_def b64_demo_def dec_demo_def publish_def)
  let ?call = "outcome_bind (meta_extractor verify_demo Some False (Some ''Bearer good'') ?l) (\<lambda>(meta, l').
       send_priority_transaction gen_last (channel_send (\<lambda>ch. True)) b64_demo dec_demo id 0 (Done 1) (Done 2) () meta ''tx''
         (Some \<lparr>cf_skip_preflight = Some True\<rparr>) ?b [])"
  have call: "?call = Done (Inr ''tx'', accept_metrics (JWT ?j) FORWARD ''tx'', b', w', Some session)"
    using meta send by simp
  have "rl_public_key ?l = Some ()" by simp
  from forwarded_requests_are_authenticated [OF this call]
  have "sr_partner_name session = ''JWT:partner:acme''"
    by (auto simp: words verify_demo_def jwt_to_string_def)
  with call show ?thesis by blast
qed

text \<open>
  The health check reflects the registry. The consumer gauge that \<^verbatim>\<open>getHealth\<close> reads
  starts at the size of the empty registry, and every subscription, disconnection and flush leaves
  it at the current number of consumers; so after each of them the check succeeds exactly when a
  consumer is registered.
\<close>

theorem health_tracks_registry:
  assumes "gauge_law get" and "gauge_ok get ops b" and "length (tx_consumers b) < 2 ^ 63 - 1"
    and "(b', effs) \<in> {subscribe ident tok tx tu b, unsubscribe ident tok b, flush_unsubscribes b}"
  shows "gauge_ok get (ops0 @ init_metrics) (balancer_new inbox) \<and>
     gauge_ok get (ops @ metric_ops effs) b' \<and>
     (get_health get (ops @ metric_ops effs) = Inr () \<longleftrightarrow> tx_consumers b' \<noteq> [])"
proof -
  have small: "length (tx_consumers b) < 2 ^ 63" using assms(3) by simp
  have "gauge_ok get (ops @ metric_ops effs) b'"
    using assms(4) gauge_ok_subscribe [OF assms(1,3), of ops ident tok tx tu]
      gauge_ok_unsubscribe [OF assms(1) small assms(2), of ident tok]
      gauge_ok_unsubscribe_all [OF assms(1) small assms(2)]
    by (auto simp: flush_unsubscribes_def Let_def) (metis fst_conv snd_conv)+
  moreover have "gauge_ok get (ops0 @ init_metrics) (balancer_new inbox)"
    using gauge_law_set [OF assms(1)] by (simp add: gauge_ok_def init_metrics_def balancer_new_def)
  ultimately show ?thesis by (simp add: get_health_iff)
qed

theorem health_tracks_registry_witness:
  "get_health gauge_last (init_metrics @ metric_ops (snd (subscribe ''a'' ''t'' 1 1 (balancer_new 0)))) = Inr ()"
proof -
  have "gauge_ok gauge_last init_metrics (balancer_new 0)"
    by (simp add: gauge_ok_def gauge_last_def init_metrics_def balancer_new_def)
  from health_tracks_registry [OF gauge_law_gauge_last this, of "fst (subscribe ''a'' ''t'' 1 1 (balancer_new 0))"
      "snd (subscribe ''a'' ''t'' 1 1 (balancer_new 0))" "''a''" "''t''" 1 1]
  show ?thesis by (simp add: balancer_new_def)
qed

end
