(* ===== verification/Grpc_Server.thy ===== *)
theory Grpc_Server
  imports Balancer_Updater
begin

text \<open>
  \<^verbatim>\<open>server/grpc_server.rs\<close>: one task per client connection. The task is a state machine;
  the server is the balancer together with all tasks ever spawned, the oneshot messages sent to
  them and the metric operations so far. A step is one branch of a task's \<^verbatim>\<open>select!\<close>, one of
  the two actions of its cleanup (the write lock is released between them), a new connection, or an
  operation of another part of the server on the balancer.

  Parameters: the X.509 parser, the file system of \<open>get_tls_config\<close>, and \<open>send\<close> as in the
  balancer. \<open>elapsed\<close> reads the clock: the microseconds since a stored instant.
\<close>

section \<open>Pings\<close>

record ping =
  pg_id :: u64
  pg_at :: instant

definition ping_new :: "instant \<Rightarrow> ping" where
  "ping_new now = \<lparr>pg_id = 0, pg_at = now\<rparr>"

text \<open>\<^verbatim>\<open>Iterator::next\<close>: the iterator afterwards and the item it yields.\<close>

definition ping_next :: "instant \<Rightarrow> ping \<Rightarrow> ping \<times> ping" where
  "ping_next now p = (p\<lparr>pg_id := pg_id p + 1\<rparr>, \<lparr>pg_id = pg_id p + 1, pg_at = now\<rparr>)"

section \<open>Identity of a client\<close>

fun first_common_name :: "('cn \<Rightarrow> string option) \<Rightarrow> 'cn list \<Rightarrow> string option" where
  "first_common_name as_str [] = None"
| "first_common_name as_str (cn # cns) =
     (case as_str cn of Some s \<Rightarrow> Some s | None \<Rightarrow> first_common_name as_str cns)"

fun first_identity ::
  "('der \<Rightarrow> 'cert option) \<Rightarrow> ('cert \<Rightarrow> 'cn list) \<Rightarrow> ('cn \<Rightarrow> string option) \<Rightarrow> 'der list \<Rightarrow> string option" where
  "first_identity from_der common_names as_str [] = None"
| "first_identity from_der common_names as_str (der # ders) =
     (case from_der der of
        Some cert \<Rightarrow>
          (case first_common_name as_str (common_names cert) of
             Some s \<Rightarrow> Some s
           | None \<Rightarrow> first_identity from_der common_names as_str ders)
      | None \<Rightarrow> first_identity from_der common_names as_str ders)"

definition get_identity_from_req ::
  "('der \<Rightarrow> 'cert option) \<Rightarrow> ('cert \<Rightarrow> 'cn list) \<Rightarrow> ('cn \<Rightarrow> string option) \<Rightarrow> 'der list option \<Rightarrow>
   string option" where
  "get_identity_from_req from_der common_names as_str peer_certs =
     (case peer_certs of
        Some certs \<Rightarrow> first_identity from_der common_names as_str certs
      | None \<Rightarrow> None)"

section \<open>Messages of a client\<close>

definition handle_client_metrics :: "string \<Rightarrow> pb_metrics \<Rightarrow> metric_op list" where
  "handle_client_metrics ident m =
     [Gauge_set CLIENT_TX_RECEIVED [ident] (as_i64 (pm_tx_received m)),
      Gauge_set CLIENT_TX_FORWARD_SUCCEEDED [ident] (as_i64 (pm_tx_forward_succeeded m)),
      Gauge_set CLIENT_TX_FORWARD_FAILED [ident] (as_i64 (pm_tx_forward_failed m)),
      Gauge_set CLIENT_QUIC_FORWARDER_PERMITS_USED_MAX [ident] (as_i64 (pm_quic_forwarder_permits_used_max m)),
      Gauge_set CLIENT_MEMORY_PHYSICAL [ident] (as_i64 (pm_memory_physical m))]"

definition handle_client_pong :: "(instant \<Rightarrow> nat) \<Rightarrow> string \<Rightarrow> string \<Rightarrow> ping \<Rightarrow> metric_op list" where
  "handle_client_pong elapsed ident pong last_ping =
     (if u64_to_string (pg_id last_ping) = pong
      then [Hist_observe CLIENT_PING_RTT [ident] (real (elapsed (pg_at last_ping)) / 1000000)]
      else [])"

definition handle_client_request ::
  "(instant \<Rightarrow> nat) \<Rightarrow> string + request_envelope \<Rightarrow> string \<Rightarrow> ping \<Rightarrow> balancer \<Rightarrow>
   (balancer \<times> metric_op list) outcome" where
  "handle_client_request elapsed msg ident last_ping b =
     (case msg of
        Inr env \<Rightarrow>
          outcome_bind
            (case rq_rtt env of Some rtt \<Rightarrow> update_rtt ident rtt b | None \<Rightarrow> Done b)
            (\<lambda>b'. Done (b',
               (case rq_metrics env of Some m \<Rightarrow> handle_client_metrics ident m | None \<Rightarrow> []) @
               (case rq_pong env of Some pong \<Rightarrow> handle_client_pong elapsed ident pong last_ping | None \<Rightarrow> [])))
      | Inl err \<Rightarrow> Done (b, []))"

section \<open>The task of a connection\<close>

text \<open>
  A task runs its loop, leaves it, removes its consumer, resets its client's metrics, and ends.
  Phases are ordered by progress.
\<close>

datatype phase = Running | Cleanup | Resetting | Finished

fun phase_rank :: "phase \<Rightarrow> nat" where
  "phase_rank Running = 0"
| "phase_rank Cleanup = 1"
| "phase_rank Resetting = 2"
| "phase_rank Finished = 3"

lemma phase_rank_inject: "phase_rank p = phase_rank q \<longleftrightarrow> p = q"
  by (cases p; cases q) simp_all

instantiation phase :: linorder
begin

definition less_eq_phase :: "phase \<Rightarrow> phase \<Rightarrow> bool" where
  "less_eq_phase p q \<longleftrightarrow> phase_rank p \<le> phase_rank q"

definition less_phase :: "phase \<Rightarrow> phase \<Rightarrow> bool" where
  "less_phase p q \<longleftrightarrow> phase_rank p < phase_rank q"

instance
  by standard (auto simp: less_eq_phase_def less_phase_def phase_rank_inject)

end

record session =
  se_identity :: string
  se_token :: string
  se_tx :: chan
  se_rx_unsubscribe :: oneshot
  se_ping_hint :: ping
  se_last_ping :: ping
  se_phase :: phase

datatype session_event =
    Unsubscribed_signal
  | Client_message "(string + request_envelope) option" "instant \<Rightarrow> nat"
  | Ping_hint instant
  | Tx_closed

fun session_select ::
  "(chan \<Rightarrow> response_envelope \<Rightarrow> 'w \<Rightarrow> bool \<times> 'w) \<Rightarrow> session_event \<Rightarrow> session \<Rightarrow> balancer \<Rightarrow> 'w \<Rightarrow>
   (session \<times> balancer \<times> 'w \<times> metric_op list) outcome" where
  "session_select send Unsubscribed_signal s b w = Done (s\<lparr>se_phase := Cleanup\<rparr>, b, w, [])"
| "session_select send (Client_message msg elapsed) s b w =
     (case msg of
        Some m \<Rightarrow>
          outcome_bind (handle_client_request elapsed m (se_identity s) (se_last_ping s) b)
            (\<lambda>(b', ops). Done (s, b', w, ops))
      | None \<Rightarrow> Done (s\<lparr>se_phase := Cleanup\<rparr>, b, w, []))"
| "session_select send (Ping_hint now) s b w =
     (let (hint, p) = ping_next now (se_ping_hint s);
          s' = s\<lparr>se_ping_hint := hint, se_last_ping := p\<rparr>;
          (ok, w') = send (se_tx s) (build_ping_message_envelope (u64_to_string (pg_id p))) w
      in Done (if ok then s' else s'\<lparr>se_phase := Cleanup\<rparr>, b, w', []))"
| "session_select send Tx_closed s b w = Done (s\<lparr>se_phase := Cleanup\<rparr>, b, w, [])"

section \<open>The server\<close>

record 'w server =
  sv_balancer :: balancer
  sv_sessions :: "session list"
  sv_notified :: "oneshot list"
  sv_metrics :: "metric_op list"
  sv_runtime :: 'w

definition server_init :: "chan \<Rightarrow> 'w \<Rightarrow> 'w server" where
  "server_init inbox w =
     \<lparr>sv_balancer = balancer_new inbox, sv_sessions = [], sv_notified = [], sv_metrics = init_metrics,
      sv_runtime = w\<rparr>"

fun perform :: "effect list \<Rightarrow> 'w server \<Rightarrow> 'w server" where
  "perform [] sv = sv"
| "perform (Metric m # effs) sv = perform effs (sv\<lparr>sv_metrics := sv_metrics sv @ [m]\<rparr>)"
| "perform (Unsubscribed os # effs) sv = perform effs (sv\<lparr>sv_notified := sv_notified sv @ [os]\<rparr>)"

text \<open>
  A new connection. The channels get fresh handles, numbered by the connections before; \<open>tok\<close>
  is the random token.
\<close>

definition tx_stream ::
  "string option \<Rightarrow> string option \<Rightarrow> string \<Rightarrow> instant \<Rightarrow> instant \<Rightarrow> 'w server \<Rightarrow>
   ((string + chan) \<times> 'w server) outcome" where
  "tx_stream ident_opt remote_addr tok now1 now2 sv =
     (case ident_opt of
        None \<Rightarrow> Done (Inl ''Not authenticated!'', sv)
      | Some ident \<Rightarrow>
          (case remote_addr of
             None \<Rightarrow> Panic ''called `Option::unwrap()` on a `None` value''
           | Some _ \<Rightarrow>
               (let n = length (sv_sessions sv);
                    (b', effs) = subscribe ident tok n n (sv_balancer sv);
                    task = \<lparr>se_identity = ident, se_token = tok, se_tx = n, se_rx_unsubscribe = n,
                            se_ping_hint = ping_new now1, se_last_ping = ping_new now2, se_phase = Running\<rparr>
                in Done (Inr n, perform effs (sv\<lparr>sv_balancer := b', sv_sessions := sv_sessions sv @ [task]\<rparr>)))))"

definition session_unsubscribe :: "nat \<Rightarrow> 'w server \<Rightarrow> 'w server" where
  "session_unsubscribe i sv =
     (let s = sv_sessions sv ! i;
          (b', effs) = unsubscribe (se_identity s) (se_token s) (sv_balancer sv)
      in perform effs (sv\<lparr>sv_balancer := b', sv_sessions := (sv_sessions sv)[i := s\<lparr>se_phase := Resetting\<rparr>]\<rparr>))"

definition session_reset :: "nat \<Rightarrow> 'w server \<Rightarrow> 'w server" where
  "session_reset i sv =
     (let s = sv_sessions sv ! i
      in perform (map Metric (reset_client_metrics (se_identity s)))
           (sv\<lparr>sv_sessions := (sv_sessions sv)[i := s\<lparr>se_phase := Finished\<rparr>]\<rparr>))"

text \<open>
  The server's steps. The random token of a connection differs from those before (16 random
  alphanumeric characters). A task sees the unsubscribe signal only once it was sent; that a client ends
  its stream or drops the connection is up to the client, so those events may come at any time.
\<close>

inductive server_step ::
  "('g \<Rightarrow> u64 \<Rightarrow> u64 \<times> 'g) \<Rightarrow> (chan \<Rightarrow> response_envelope \<Rightarrow> 'w \<Rightarrow> bool \<times> 'w) \<Rightarrow>
   'w server \<Rightarrow> 'w server \<Rightarrow> bool" for gen_range send where
  sv_connect: "tok \<notin> se_token ` set (sv_sessions sv) \<Longrightarrow>
     tx_stream ident_opt remote_addr tok now1 now2 sv = Done (r, sv') \<Longrightarrow> server_step gen_range send sv sv'"
| sv_event: "i < length (sv_sessions sv) \<Longrightarrow> se_phase (sv_sessions sv ! i) = Running \<Longrightarrow>
     (ev = Unsubscribed_signal \<longrightarrow> se_rx_unsubscribe (sv_sessions sv ! i) \<in> set (sv_notified sv)) \<Longrightarrow>
     session_select send ev (sv_sessions sv ! i) (sv_balancer sv) (sv_runtime sv) = Done (s', b', w', ops) \<Longrightarrow>
     server_step gen_range send sv
       (sv\<lparr>sv_sessions := (sv_sessions sv)[i := s'], sv_balancer := b', sv_runtime := w',
           sv_metrics := sv_metrics sv @ ops\<rparr>)"
| sv_unsubscribe: "i < length (sv_sessions sv) \<Longrightarrow> se_phase (sv_sessions sv ! i) = Cleanup \<Longrightarrow>
     server_step gen_range send sv (session_unsubscribe i sv)"
| sv_reset: "i < length (sv_sessions sv) \<Longrightarrow> se_phase (sv_sessions sv ! i) = Resetting \<Longrightarrow>
     server_step gen_range send sv (session_reset i sv)"
| sv_publish: "publish gen_range send rng (session :: string signature_record) signature data
       (sv_balancer sv) (sv_runtime sv) = Done (r, b', w', out) \<Longrightarrow>
     server_step gen_range send sv (sv\<lparr>sv_balancer := b', sv_runtime := w'\<rparr>)"
| sv_stakes: "server_step gen_range send sv
     (sv\<lparr>sv_balancer := update_stake_weights weights (sv_balancer sv)\<rparr>)"
| sv_leaders: "flush_unsubscribes (set_leaders tpus ls (sv_balancer sv)) = (b', effs) \<Longrightarrow>
     server_step gen_range send sv (perform effs (sv\<lparr>sv_balancer := b'\<rparr>))"
| sv_rehash: "hm_same (tx_consumers (sv_balancer sv)) m \<Longrightarrow>
     server_step gen_range send sv (sv\<lparr>sv_balancer := (sv_balancer sv)\<lparr>tx_consumers := m\<rparr>\<rparr>)"

section \<open>TLS configuration\<close>

record tls_config =
  tls_identity :: "string \<times> string"
  tls_client_ca_root :: "string option"

definition get_tls_config ::
  "(string \<Rightarrow> string + string) \<Rightarrow> string option \<Rightarrow> string option \<Rightarrow> string option \<Rightarrow>
   string + tls_config option" where
  "get_tls_config read_file tls_server_cert tls_server_key tls_grpc_ca_cert =
     (case (tls_server_cert, tls_server_key) of
        (Some cert, Some key) \<Rightarrow>
          (case read_file cert of Inl err \<Rightarrow> Inl err | Inr cert_pem \<Rightarrow>
          (case read_file key of Inl err \<Rightarrow> Inl err | Inr key_pem \<Rightarrow>
          (case tls_grpc_ca_cert of
             Some ca \<Rightarrow>
               (case read_file ca of Inl err \<Rightarrow> Inl err
                | Inr ca_pem \<Rightarrow> Inr (Some \<lparr>tls_identity = (cert_pem, key_pem), tls_client_ca_root = Some ca_pem\<rparr>))
           | None \<Rightarrow> Inr (Some \<lparr>tls_identity = (cert_pem, key_pem), tls_client_ca_root = None\<rparr>))))
      | _ \<Rightarrow> Inr None)"

text \<open>
  \<open>tls_accepts\<close> is the builder's check of the configuration; \<open>serve\<close> runs the transport on the
  address until it stops.
\<close>

definition spawn_grpc_server ::
  "(string \<Rightarrow> string + string) \<Rightarrow> (tls_config \<Rightarrow> string + unit) \<Rightarrow> (tls_config option \<Rightarrow> 'addr \<Rightarrow> string + unit) \<Rightarrow>
   'addr \<Rightarrow> string option \<Rightarrow> string option \<Rightarrow> string option \<Rightarrow> string + unit" where
  "spawn_grpc_server read_file tls_accepts serve grpc_addr tls_server_cert tls_server_key tls_grpc_ca_cert =
     (case get_tls_config read_file tls_server_cert tls_server_key tls_grpc_ca_cert of
        Inl err \<Rightarrow> Inl err
      | Inr tls \<Rightarrow>
          (case (case tls of Some t \<Rightarrow> tls_accepts t | None \<Rightarrow> Inr ()) of
             Inl err \<Rightarrow> Inl err
           | Inr _ \<Rightarrow> serve tls grpc_addr))"

section \<open>Fields\<close>

lemma perform_fields [simp]:
  "sv_balancer (perform effs sv) = sv_balancer sv"
  "sv_sessions (perform effs sv) = sv_sessions sv"
  "sv_runtime (perform effs sv) = sv_runtime sv"
  "sv_notified (perform effs sv) = sv_notified sv @ notices effs"
  "sv_metrics (perform effs sv) = sv_metrics sv @ metric_ops effs"
  by (induction effs sv rule: perform.induct) simp_all

lemma session_select_fields:
  assumes "session_select send ev s b w = Done (s', b', w', ops)"
  shows "se_identity s' = se_identity s" "se_token s' = se_token s" "se_tx s' = se_tx s"
    "se_rx_unsubscribe s' = se_rx_unsubscribe s" "se_phase s' = se_phase s \<or> se_phase s' = Cleanup"
    "tx_consumers b' = tx_consumers b" "stake_weights b' = stake_weights b"
  using assms
  by (cases ev; auto simp: Let_def case_prod_beta handle_client_request_def update_rtt_def
      split: option.splits sum.splits if_splits)+

end
