(* ===== verification/Grpc_Sessions.thy ===== *)
theory Grpc_Sessions
  imports Grpc_Server
begin

text \<open>
  The invariant of the server: every registered consumer belongs to a connection task that will
  still remove it, and every running task owns its identity or has been told that it lost it. It
  holds in all reachable states, for every interleaving of connections, messages, cleanups,
  publications and updates.
\<close>

section \<open>The invariant\<close>

definition backed_by :: "session list \<Rightarrow> string \<Rightarrow> tx_consumer \<Rightarrow> nat \<Rightarrow> bool" where
  "backed_by ss k c i \<longleftrightarrow> i < length ss \<and> se_identity (ss ! i) = k \<and> se_token (ss ! i) = tc_token c \<and>
     tc_tx c = i \<and> tc_tx_unsubscribe c = Some i \<and> se_phase (ss ! i) \<le> Cleanup"

definition told :: "balancer \<Rightarrow> session list \<Rightarrow> oneshot list \<Rightarrow> nat \<Rightarrow> bool" where
  "told b ss nts i \<longleftrightarrow>
     (se_phase (ss ! i) = Running \<longrightarrow>
        owner b (se_identity (ss ! i)) = Some (se_token (ss ! i)) \<or> i \<in> set nts)"

definition sv_inv :: "'w server \<Rightarrow> bool" where
  "sv_inv sv \<longleftrightarrow> bal_inv (sv_balancer sv) \<and> distinct (map se_token (sv_sessions sv)) \<and>
     (\<forall>i < length (sv_sessions sv). se_tx (sv_sessions sv ! i) = i \<and> se_rx_unsubscribe (sv_sessions sv ! i) = i) \<and>
     (\<forall>(k, c) \<in> set (tx_consumers (sv_balancer sv)). \<exists>i. backed_by (sv_sessions sv) k c i) \<and>
     (\<forall>i < length (sv_sessions sv). told (sv_balancer sv) (sv_sessions sv) (sv_notified sv) i)"

lemma phase_le_Cleanup [simp]: "p \<le> Cleanup \<longleftrightarrow> p = Running \<or> p = Cleanup"
  by (cases p) (simp_all add: less_eq_phase_def)

lemma sv_invD:
  assumes "sv_inv sv"
  shows "bal_inv (sv_balancer sv)" "distinct (map se_token (sv_sessions sv))"
    "i < length (sv_sessions sv) \<Longrightarrow> se_tx (sv_sessions sv ! i) = i \<and> se_rx_unsubscribe (sv_sessions sv ! i) = i"
    "(k, c) \<in> set (tx_consumers (sv_balancer sv)) \<Longrightarrow> \<exists>i. backed_by (sv_sessions sv) k c i"
    "i < length (sv_sessions sv) \<Longrightarrow> told (sv_balancer sv) (sv_sessions sv) (sv_notified sv) i"
  using assms unfolding sv_inv_def by blast+

lemma sv_invI:
  assumes "bal_inv (sv_balancer sv)" "distinct (map se_token (sv_sessions sv))"
    "\<And>i. i < length (sv_sessions sv) \<Longrightarrow> se_tx (sv_sessions sv ! i) = i \<and> se_rx_unsubscribe (sv_sessions sv ! i) = i"
    "\<And>k c. (k, c) \<in> set (tx_consumers (sv_balancer sv)) \<Longrightarrow> \<exists>i. backed_by (sv_sessions sv) k c i"
    "\<And>i. i < length (sv_sessions sv) \<Longrightarrow> told (sv_balancer sv) (sv_sessions sv) (sv_notified sv) i"
  shows "sv_inv sv"
  using assms unfolding sv_inv_def by blast

lemma sv_inv_init: "sv_inv (server_init inbox w)"
  by (rule sv_invI) (simp_all add: server_init_def mtx_inv, simp add: balancer_new_def)

text \<open>The consumer that holds a task's token is the one the task registered.\<close>

lemma owner_backed:
  assumes "sv_inv sv" and "i < length (sv_sessions sv)"
    and "owner (sv_balancer sv) k = Some (se_token (sv_sessions sv ! i))"
  shows "\<exists>c. hm_get (tx_consumers (sv_balancer sv)) k = Some c \<and> backed_by (sv_sessions sv) k c i"
proof -
  from assms(3) obtain c where c: "hm_get (tx_consumers (sv_balancer sv)) k = Some c"
    and tok: "tc_token c = se_token (sv_sessions sv ! i)"
    by (auto simp: owner_def)
  from c bal_invD(1) [OF sv_invD(1) [OF assms(1)]] have "(k, c) \<in> set (tx_consumers (sv_balancer sv))"
    by (simp add: hm_get_iff)
  then obtain j where j: "backed_by (sv_sessions sv) k c j" using sv_invD(4) [OF assms(1)] by blast
  then have "j = i"
    using sv_invD(2) [OF assms(1)] assms(2) tok
    by (auto simp: backed_by_def distinct_conv_nth)
  with c j show ?thesis by blast
qed

section \<open>Steps that keep every client\<close>

text \<open>
  Balancer operations that keep owners and only rewrite flags and stakes, and task steps that keep
  a task's identity, token and channels and at most leave the loop.
\<close>

definition same_clients :: "balancer \<Rightarrow> balancer \<Rightarrow> bool" where
  "same_clients b b' \<longleftrightarrow> owner b' = owner b \<and>
     (\<forall>(k, c') \<in> set (tx_consumers b'). \<exists>c. (k, c) \<in> set (tx_consumers b) \<and> tc_token c' = tc_token c \<and>
        tc_tx c' = tc_tx c \<and> tc_tx_unsubscribe c' = tc_tx_unsubscribe c)"

lemma same_clients_refl: "tx_consumers b' = tx_consumers b \<Longrightarrow> same_clients b b'"
  by (auto simp: same_clients_def owner_def fun_eq_iff)

lemma same_clients_trans: "same_clients b b' \<Longrightarrow> same_clients b' b'' \<Longrightarrow> same_clients b b''"
  unfolding same_clients_def by fastforce

lemma same_clients_map_values:
  assumes "\<And>k c. tc_token (f k c) = tc_token c" "\<And>k c. tc_tx (f k c) = tc_tx c"
    "\<And>k c. tc_tx_unsubscribe (f k c) = tc_tx_unsubscribe c"
    and "tx_consumers b' = hm_map_values f (tx_consumers b)"
  shows "same_clients b b'"
  unfolding same_clients_def owner_def assms(4)
  by (auto simp: set_hm_map_values assms(1-3) fun_eq_iff option.map_comp comp_def)

lemma same_clients_flag: "same_clients b (flag_unsubscribe ident b)"
  by (rule same_clients_map_values [where f = "\<lambda>k c. if k = ident then c\<lparr>tc_do_unsubscribe := True\<rparr> else c"])
     (simp_all add: flag_unsubscribe_def)

lemma same_clients_fold_flag: "same_clients b (fold flag_unsubscribe ids b)"
proof (induction ids arbitrary: b)
  case (Cons i ids)
  show ?case using same_clients_trans [OF same_clients_flag Cons] by simp
qed (simp add: same_clients_refl)

lemma same_clients_stakes: "same_clients b (update_stake_weights weights b)"
  by (rule same_clients_map_values [where f = "\<lambda>k c. c\<lparr>tc_stake := stake_of weights k\<rparr>"])
     (simp_all add: update_stake_weights_def)

lemma same_clients_publish:
  assumes "publish gen_range send rng session signature data b w = Done (r, b', w', out)"
  shows "same_clients b b'"
  using assms
proof (cases rule: publish_cases)
  case 1
  then show ?thesis by (simp add: same_clients_refl)
next
  case (2 ps session')
  from publish_loop_spec [OF 2(4)] show ?thesis using same_clients_fold_flag by blast
qed

lemma same_clients_rehash:
  "hm_ok (tx_consumers b) \<Longrightarrow> hm_same (tx_consumers b) m \<Longrightarrow> same_clients b (b\<lparr>tx_consumers := m\<rparr>)"
  by (auto simp: same_clients_def owner_def fun_eq_iff hm_same_get hm_same_set)

definition same_tasks :: "session list \<Rightarrow> session list \<Rightarrow> bool" where
  "same_tasks ss ss' \<longleftrightarrow> length ss' = length ss \<and>
     (\<forall>i < length ss. se_identity (ss' ! i) = se_identity (ss ! i) \<and> se_token (ss' ! i) = se_token (ss ! i) \<and>
        se_tx (ss' ! i) = se_tx (ss ! i) \<and> se_rx_unsubscribe (ss' ! i) = se_rx_unsubscribe (ss ! i))"

lemma same_tasks_refl [simp]: "same_tasks ss ss"
  by (simp add: same_tasks_def)

lemma same_tasks_update:
  "se_identity s' = se_identity (ss ! i) \<Longrightarrow> se_token s' = se_token (ss ! i) \<Longrightarrow> se_tx s' = se_tx (ss ! i) \<Longrightarrow>
   se_rx_unsubscribe s' = se_rx_unsubscribe (ss ! i) \<Longrightarrow> same_tasks ss (ss[i := s'])"
  by (cases "i < length ss") (auto simp: same_tasks_def nth_list_update)

lemma same_tasks_tokens: "same_tasks ss ss' \<Longrightarrow> map se_token ss' = map se_token ss"
  by (auto simp: same_tasks_def intro: nth_equalityI)

text \<open>The shape of every preservation proof: the tasks are the same, phases and registry change.\<close>

lemma sv_inv_same_tasks:
  assumes "sv_inv sv" and "bal_inv (sv_balancer sv')" and tasks: "same_tasks (sv_sessions sv) (sv_sessions sv')"
    and "\<And>k c'. (k, c') \<in> set (tx_consumers (sv_balancer sv')) \<Longrightarrow> \<exists>i. backed_by (sv_sessions sv') k c' i"
    and "\<And>i. i < length (sv_sessions sv) \<Longrightarrow> told (sv_balancer sv') (sv_sessions sv') (sv_notified sv') i"
  shows "sv_inv sv'"
proof (rule sv_invI)
  show "distinct (map se_token (sv_sessions sv'))"
    using sv_invD(2) [OF assms(1)] same_tasks_tokens [OF tasks] by simp
  show "se_tx (sv_sessions sv' ! i) = i \<and> se_rx_unsubscribe (sv_sessions sv' ! i) = i"
    if "i < length (sv_sessions sv')" for i
    using that sv_invD(3) [OF assms(1), of i] tasks by (simp add: same_tasks_def)
qed (use assms tasks in \<open>auto simp: same_tasks_def\<close>)

lemma sv_inv_same:
  assumes inv: "sv_inv sv" and "bal_inv (sv_balancer sv')" and tasks: "same_tasks (sv_sessions sv) (sv_sessions sv')"
    and phases: "\<And>i. i < length (sv_sessions sv) \<Longrightarrow>
       se_phase (sv_sessions sv' ! i) = se_phase (sv_sessions sv ! i) \<or>
       se_phase (sv_sessions sv ! i) = Running \<and> se_phase (sv_sessions sv' ! i) = Cleanup \<or>
       se_phase (sv_sessions sv ! i) = Resetting \<and> se_phase (sv_sessions sv' ! i) = Finished"
    and clients: "same_clients (sv_balancer sv) (sv_balancer sv')"
    and notified: "set (sv_notified sv) \<subseteq> set (sv_notified sv')"
  shows "sv_inv sv'"
proof (rule sv_inv_same_tasks [OF inv assms(2) tasks])
  fix k c' assume "(k, c') \<in> set (tx_consumers (sv_balancer sv'))"
  with clients obtain c where c: "(k, c) \<in> set (tx_consumers (sv_balancer sv))" "tc_token c' = tc_token c"
    "tc_tx c' = tc_tx c" "tc_tx_unsubscribe c' = tc_tx_unsubscribe c"
    unfolding same_clients_def by blast
  from sv_invD(4) [OF inv c(1)] obtain i where "backed_by (sv_sessions sv) k c i" ..
  with c tasks phases [of i] have "backed_by (sv_sessions sv') k c' i"
    by (auto simp: backed_by_def same_tasks_def)
  then show "\<exists>i. backed_by (sv_sessions sv') k c' i" ..
next
  fix i assume i: "i < length (sv_sessions sv)"
  with sv_invD(5) [OF inv i] phases [OF i] tasks clients notified
  show "told (sv_balancer sv') (sv_sessions sv') (sv_notified sv') i"
    by (auto simp: told_def same_tasks_def same_clients_def)
qed

section \<open>Connections, cleanups and flushes\<close>

lemma backed_by_append: "backed_by ss k c i \<Longrightarrow> backed_by (ss @ ts) k c i"
  by (simp add: backed_by_def nth_append)

lemma subscribe_notifies:
  assumes "hm_get (tx_consumers b) ident = Some c" and "tc_tx_unsubscribe c = Some os"
  shows "Unsubscribed os \<in> set (snd (subscribe ident tok tx tu b))"
  using assms by (simp add: subscribe_def drop_consumer_def Let_def case_prod_beta)

text \<open>A new connection: its consumer is backed by its task, and a displaced task is told.\<close>

lemma connect_backed:
  fixes n :: nat and tok :: string
  assumes inv: "sv_inv sv" and n: "n = length (sv_sessions sv)"
    and s: "se_identity s = ident" "se_token s = tok" "se_phase s = Running"
    and kc: "(k, c) \<in> set (tx_consumers (fst (subscribe ident tok n n (sv_balancer sv))))"
  shows "\<exists>i. backed_by (sv_sessions sv @ [s]) k c i"
proof (cases "k = ident")
  case True
  with kc s bal_invD(1) [OF sv_invD(1) [OF inv]] have "backed_by (sv_sessions sv @ [s]) k c n"
    by (auto simp: n set_hm_insert backed_by_def)
  then show ?thesis ..
next
  case False
  with kc bal_invD(1) [OF sv_invD(1) [OF inv]] have "(k, c) \<in> set (tx_consumers (sv_balancer sv))"
    by (auto simp: set_hm_insert)
  with sv_invD(4) [OF inv] show ?thesis by (blast intro: backed_by_append)
qed

lemma connect_told:
  fixes n :: nat and tok :: string
  assumes inv: "sv_inv sv" and s: "se_identity s = ident" "se_token s = tok"
    and i: "i < length (sv_sessions sv @ [s])"
  defines "sub \<equiv> subscribe ident tok n n (sv_balancer sv)"
  shows "told (fst sub) (sv_sessions sv @ [s]) (sv_notified sv @ notices (snd sub)) i"
proof (cases "i = length (sv_sessions sv)")
  case True
  with s show ?thesis by (simp add: told_def sub_def nth_append)
next
  case False
  with i have i: "i < length (sv_sessions sv)" by simp
  let ?si = "sv_sessions sv ! i"
  show ?thesis
  proof (cases "se_identity ?si = ident \<and> owner (sv_balancer sv) ident = Some (se_token ?si)")
    case True
    with owner_backed [OF inv i] have "Unsubscribed i \<in> set (snd sub)"
      by (auto simp: sub_def backed_by_def intro: subscribe_notifies)
    then show ?thesis by (simp add: told_def)
  next
    case False
    with sv_invD(5) [OF inv i] i show ?thesis by (auto simp: told_def sub_def nth_append)
  qed
qed

lemma sv_inv_connect:
  assumes inv: "sv_inv sv" and fresh: "tok \<notin> se_token ` set (sv_sessions sv)"
    and conn: "tx_stream ident_opt remote_addr tok now1 now2 sv = Done (r, sv')"
  shows "sv_inv sv'"
proof (cases ident_opt)
  case None
  with conn inv show ?thesis by (simp add: tx_stream_def)
next
  case (Some ident)
  let ?n = "length (sv_sessions sv)"
  let ?sub = "subscribe ident tok ?n ?n (sv_balancer sv)"
  obtain p1 p2 where sv': "sv_balancer sv' = fst ?sub" "sv_notified sv' = sv_notified sv @ notices (snd ?sub)"
    "sv_sessions sv' = sv_sessions sv @ [\<lparr>se_identity = ident, se_token = tok, se_tx = ?n, se_rx_unsubscribe = ?n,
        se_ping_hint = p1, se_last_ping = p2, se_phase = Running\<rparr>]"
    using conn Some by (auto simp: tx_stream_def Let_def case_prod_beta split: option.splits)
  show ?thesis
  proof (rule sv_invI)
    show "bal_inv (sv_balancer sv')" using sv_invD(1) [OF inv] by (simp add: sv' mtx_inv)
    show "distinct (map se_token (sv_sessions sv'))" using sv_invD(2) [OF inv] fresh by (simp add: sv')
    show "se_tx (sv_sessions sv' ! i) = i \<and> se_rx_unsubscribe (sv_sessions sv' ! i) = i"
      if "i < length (sv_sessions sv')" for i
      using that sv_invD(3) [OF inv, of i] by (auto simp: sv' nth_append less_Suc_eq)
    show "\<exists>i. backed_by (sv_sessions sv') k c i" if "(k, c) \<in> set (tx_consumers (sv_balancer sv'))" for k c
      using connect_backed [OF inv refl _ _ _ that [unfolded sv'(1)]] by (simp add: sv'(3))
    show "told (sv_balancer sv') (sv_sessions sv') (sv_notified sv') i" if "i < length (sv_sessions sv')" for i
      using connect_told [OF inv _ _ that [unfolded sv'(3)]] by (simp add: sv')
  qed
qed

lemma sv_inv_unsubscribe:
  assumes inv: "sv_inv sv" and i: "i < length (sv_sessions sv)" and ph: "se_phase (sv_sessions sv ! i) = Cleanup"
  shows "sv_inv (session_unsubscribe i sv)"
proof -
  let ?s = "sv_sessions sv ! i" and ?b = "sv_balancer sv"
  let ?un = "unsubscribe (se_identity ?s) (se_token ?s) ?b"
  let ?sv' = "session_unsubscribe i sv"
  have sv': "sv_balancer ?sv' = fst ?un" "sv_notified ?sv' = sv_notified sv @ notices (snd ?un)"
    "sv_sessions ?sv' = (sv_sessions sv)[i := ?s\<lparr>se_phase := Resetting\<rparr>]"
    by (simp_all add: session_unsubscribe_def Let_def case_prod_beta)
  note ok = bal_invD(1) [OF sv_invD(1) [OF inv]]
  show ?thesis
  proof (rule sv_inv_same_tasks [OF inv])
    show "bal_inv (sv_balancer ?sv')" using sv_invD(1) [OF inv] by (simp add: sv' mtx_inv)
    show "same_tasks (sv_sessions sv) (sv_sessions ?sv')" unfolding sv' by (rule same_tasks_update) simp_all
    show "\<exists>j. backed_by (sv_sessions ?sv') k c j" if "(k, c) \<in> set (tx_consumers (sv_balancer ?sv'))" for k c
    proof -
      from that ok have kc: "(k, c) \<in> set (tx_consumers ?b)" and ne: "\<not> (k = se_identity ?s \<and> tc_token c = se_token ?s)"
        by (auto simp: sv' tx_consumers_unsubscribe)
      from sv_invD(4) [OF inv kc] obtain j where j: "backed_by (sv_sessions sv) k c j" ..
      with ne have "j \<noteq> i" by (auto simp: backed_by_def)
      with j have "backed_by (sv_sessions ?sv') k c j" by (simp add: backed_by_def sv')
      then show ?thesis ..
    qed
    show "told (sv_balancer ?sv') (sv_sessions ?sv') (sv_notified ?sv') j" if j: "j < length (sv_sessions sv)" for j
    proof (cases "j = i")
      case True
      with i show ?thesis by (simp add: told_def sv')
    next
      case False
      with i j sv_invD(2) [OF inv] have "se_token (sv_sessions sv ! j) \<noteq> se_token ?s"
        by (auto simp: distinct_conv_nth)
      with False sv_invD(5) [OF inv j] show ?thesis
        by (auto simp: told_def sv' owner_unsubscribe)
    qed
  qed
qed

lemma sv_inv_flush:
  assumes inv: "sv_inv sv" and fl: "flush_unsubscribes (set_leaders tpus ls (sv_balancer sv)) = (b', effs)"
  shows "sv_inv (perform effs (sv\<lparr>sv_balancer := b'\<rparr>))"
proof -
  let ?b = "set_leaders tpus ls (sv_balancer sv)"
  have bi: "bal_inv ?b" using sv_invD(1) [OF inv] by (simp add: bal_inv_set_leaders)
  have b': "b' = fst (flush_unsubscribes ?b)" and effs: "effs = snd (flush_unsubscribes ?b)" by (simp_all add: fl)
  show ?thesis
  proof (rule sv_inv_same_tasks [OF inv])
    show "bal_inv (sv_balancer (perform effs (sv\<lparr>sv_balancer := b'\<rparr>)))" using bi by (simp add: b' mtx_inv)
    show "\<exists>i. backed_by (sv_sessions (perform effs (sv\<lparr>sv_balancer := b'\<rparr>))) k c i"
      if "(k, c) \<in> set (tx_consumers (sv_balancer (perform effs (sv\<lparr>sv_balancer := b'\<rparr>))))" for k c
      using that sv_invD(4) [OF inv, of k c] by (simp add: b' flush_unsubscribes_filter [OF bi])
    show "told (sv_balancer (perform effs (sv\<lparr>sv_balancer := b'\<rparr>))) (sv_sessions (perform effs (sv\<lparr>sv_balancer := b'\<rparr>)))
        (sv_notified (perform effs (sv\<lparr>sv_balancer := b'\<rparr>))) i" if i: "i < length (sv_sessions sv)" for i
    proof (cases "owner (sv_balancer sv) (se_identity (sv_sessions sv ! i)) = Some (se_token (sv_sessions sv ! i))
        \<and> flagged (sv_balancer sv) (se_identity (sv_sessions sv ! i))")
      case True
      with owner_backed [OF inv i, of "se_identity (sv_sessions sv ! i)"] obtain c where
        c: "hm_get (tx_consumers (sv_balancer sv)) (se_identity (sv_sessions sv ! i)) = Some c"
        "tc_tx_unsubscribe c = Some i" "tc_do_unsubscribe c"
        by (auto simp: backed_by_def flagged_def)
      then have "(se_identity (sv_sessions sv ! i), c) \<in> set (tx_consumers ?b)"
        using bal_invD(1) [OF sv_invD(1) [OF inv]] by (simp add: hm_get_iff)
      from flush_notifies [OF bi this c(3)] c(2) show ?thesis by (simp add: told_def effs)
    next
      case False
      with sv_invD(5) [OF inv i] show ?thesis by (auto simp: told_def b' owner_flush [OF bi])
    qed
  qed simp
qed

section \<open>All reachable states\<close>

lemma sv_inv_event:
  assumes inv: "sv_inv sv" and i: "i < length (sv_sessions sv)" and run: "se_phase (sv_sessions sv ! i) = Running"
    and sel: "session_select send ev (sv_sessions sv ! i) (sv_balancer sv) w = Done (s', b', w', ops)"
  shows "sv_inv (sv\<lparr>sv_sessions := (sv_sessions sv)[i := s'], sv_balancer := b', sv_runtime := w',
      sv_metrics := sv_metrics sv @ ops\<rparr>)"
proof (rule sv_inv_same [OF inv])
  note f = session_select_fields [OF sel]
  show "bal_inv (sv_balancer (sv\<lparr>sv_sessions := (sv_sessions sv)[i := s'], sv_balancer := b', sv_runtime := w',
      sv_metrics := sv_metrics sv @ ops\<rparr>))"
    using sv_invD(1) [OF inv] f(6,7) by (simp add: bal_inv_def consumer_ok_def)
qed (use session_select_fields [OF sel] run i in \<open>auto simp: nth_list_update intro: same_tasks_update same_clients_refl\<close>)

lemma sv_inv_step:
  assumes "sv_inv sv" and "server_step gen_range send sv sv'"
  shows "sv_inv sv'"
  using assms(2,1)
proof cases
  case (sv_connect tok ident_opt remote_addr now1 now2 r)
  with assms(1) show ?thesis by (blast intro: sv_inv_connect)
next
  case (sv_event i ev s' b' w' ops)
  with assms(1) show ?thesis by (blast intro: sv_inv_event)
next
  case (sv_unsubscribe i)
  with assms(1) show ?thesis by (simp add: sv_inv_unsubscribe)
next
  case (sv_reset i)
  show ?thesis unfolding sv_reset
    by (rule sv_inv_same [OF assms(1)])
       (use sv_reset sv_invD(1) [OF assms(1)] in
         \<open>auto simp: session_reset_def Let_def nth_list_update intro: same_tasks_update same_clients_refl\<close>)
next
  case (sv_publish rng session signature data r b' w' out)
  show ?thesis unfolding sv_publish(1)
    by (rule sv_inv_same [OF assms(1)])
       (use sv_publish bal_inv_publish [OF sv_publish(2) sv_invD(1) [OF assms(1)]] in \<open>auto intro: same_clients_publish\<close>)
next
  case (sv_stakes weights)
  show ?thesis unfolding sv_stakes
    by (rule sv_inv_same [OF assms(1)])
       (use sv_invD(1) [OF assms(1)] in \<open>auto simp: same_clients_stakes mtx_inv\<close>)
next
  case (sv_leaders tpus ls b' effs)
  with assms(1) show ?thesis by (simp add: sv_inv_flush)
next
  case (sv_rehash m)
  have "bal_inv ((sv_balancer sv)\<lparr>tx_consumers := m\<rparr>)"
    using sv_invD(1) [OF assms(1)] sv_rehash(2) by (simp add: bal_inv_rehash)
  then show ?thesis unfolding sv_rehash(1)
    by (intro sv_inv_same [OF assms(1)])
       (use sv_rehash bal_invD(1) [OF sv_invD(1) [OF assms(1)]] in \<open>auto intro: same_clients_rehash\<close>)
qed

interpretation sv_machine: inductive_invariant "server_init inbox w" "server_step gen_range send" sv_inv
  for inbox w gen_range send
  by unfold_locales (rule sv_inv_init, erule (1) sv_inv_step)

section \<open>Ending a task\<close>

definition end_task :: "nat \<Rightarrow> 'w server \<Rightarrow> 'w server" where
  "end_task i sv = session_reset i (session_unsubscribe i sv)"

lemma end_task_fields:
  assumes "i < length (sv_sessions sv)"
  shows "sv_sessions (end_task i sv) = (sv_sessions sv)[i := (sv_sessions sv ! i)\<lparr>se_phase := Finished\<rparr>]"
    and "owner (sv_balancer (end_task i sv)) =
      (if owner (sv_balancer sv) (se_identity (sv_sessions sv ! i)) = Some (se_token (sv_sessions sv ! i))
       then (owner (sv_balancer sv))(se_identity (sv_sessions sv ! i) := None) else owner (sv_balancer sv))"
    and "\<exists>ops. sv_metrics (end_task i sv) = sv_metrics sv @ ops @ reset_client_metrics (se_identity (sv_sessions sv ! i)) \<and>
      (owner (sv_balancer sv) (se_identity (sv_sessions sv ! i)) \<noteq> Some (se_token (sv_sessions sv ! i)) \<longrightarrow> ops = [])"
  using assms
  by (auto simp: end_task_def session_reset_def session_unsubscribe_def Let_def case_prod_beta owner_unsubscribe
      unsubscribe_def owner_def reset_client_metrics_def split: option.splits)

lemma notified_task_leaves:
  assumes "i < length (sv_sessions sv)" and "se_phase (sv_sessions sv ! i) = Running"
    and "se_rx_unsubscribe (sv_sessions sv ! i) \<in> set (sv_notified sv)"
  shows "server_step gen_range send sv
     (sv\<lparr>sv_sessions := (sv_sessions sv)[i := (sv_sessions sv ! i)\<lparr>se_phase := Cleanup\<rparr>]\<rparr>)"
  using sv_event [OF assms(1,2), of Unsubscribed_signal send "(sv_sessions sv ! i)\<lparr>se_phase := Cleanup\<rparr>"
      "sv_balancer sv" "sv_runtime sv" "[]" gen_range] assms(3)
  by simp

section \<open>Identities\<close>

text \<open>The readable common names of all certificates that parse, in order.\<close>

definition readable_names ::
  "('der \<Rightarrow> 'cert option) \<Rightarrow> ('cert \<Rightarrow> 'cn list) \<Rightarrow> ('cn \<Rightarrow> string option) \<Rightarrow> 'der list \<Rightarrow> string list" where
  "readable_names from_der common_names as_str ders =
     concat (map (\<lambda>cert. List.map_filter as_str (common_names cert)) (List.map_filter from_der ders))"

lemma first_common_name_conv:
  "first_common_name as_str cns = (case List.map_filter as_str cns of [] \<Rightarrow> None | n # _ \<Rightarrow> Some n)"
  by (induction cns) (auto simp: map_filter_simps split: option.splits)

lemma first_identity_conv:
  "first_identity from_der common_names as_str ders =
     (case readable_names from_der common_names as_str ders of [] \<Rightarrow> None | n # _ \<Rightarrow> Some n)"
  by (induction ders)
     (auto simp: readable_names_def first_common_name_conv map_filter_simps simp del: concat_eq_Nil_conv
       split: option.splits list.splits)

section \<open>Concrete runs for the witnesses\<close>

text \<open>A client connects, and connects again before its first task has ended.\<close>

definition reconnect_run :: "unit server" where
  "reconnect_run =
     (let step = \<lambda>tok sv. (case tx_stream (Some ''v'') (Some ''ip'') tok 0 0 sv of Done (_, sv') \<Rightarrow> sv' | Panic _ \<Rightarrow> sv)
      in step ''t2'' (step ''t1'' (server_init 0 ())))"

lemma reconnect_run_reachable: "(server_step gen_last send)\<^sup>*\<^sup>* (server_init 0 ()) reconnect_run"
proof -
  let ?s0 = "server_init 0 () :: unit server"
  obtain sv1 where sv1: "tx_stream (Some ''v'') (Some ''ip'') ''t1'' 0 0 ?s0 = Done (Inr 0, sv1)"
    "map se_token (sv_sessions sv1) = [''t1'']"
    by (simp add: tx_stream_def Let_def case_prod_beta server_init_def)
  obtain sv2 where sv2: "tx_stream (Some ''v'') (Some ''ip'') ''t2'' 0 0 sv1 = Done (Inr (length (sv_sessions sv1)), sv2)"
    by (simp add: tx_stream_def Let_def case_prod_beta)
  have "server_step gen_last send ?s0 sv1"
    by (rule sv_connect [OF _ sv1(1)]) (simp add: server_init_def)
  moreover have "server_step gen_last send sv1 sv2"
    using arg_cong [OF sv1(2), of set] by (intro sv_connect [OF _ sv2]) simp
  moreover have "reconnect_run = sv2"
    using sv1(1) sv2 by (simp add: reconnect_run_def)
  ultimately show ?thesis by (meson converse_rtranclp_into_rtranclp r_into_rtranclp)
qed

section \<open>Properties\<close>

text \<open>
  C1. No consumer is leaked. In every reachable state of the server, each registered consumer
  belongs to a connection task with the same identity, token and channels that has not yet done
  its removal; so once every task has reached its last actions, the registry is empty.
\<close>

theorem no_leaked_consumers:
  assumes "(server_step gen_range send)\<^sup>*\<^sup>* (server_init inbox w) sv"
  shows "(\<forall>(k, c) \<in> set (tx_consumers (sv_balancer sv)). \<exists>i < length (sv_sessions sv).
       se_identity (sv_sessions sv ! i) = k \<and> se_token (sv_sessions sv ! i) = tc_token c \<and>
       se_tx (sv_sessions sv ! i) = tc_tx c \<and> Some (se_rx_unsubscribe (sv_sessions sv ! i)) = tc_tx_unsubscribe c \<and>
       se_phase (sv_sessions sv ! i) \<le> Cleanup) \<and>
     ((\<forall>s \<in> set (sv_sessions sv). Resetting \<le> se_phase s) \<longrightarrow> tx_consumers (sv_balancer sv) = [])"
    (is "?backed \<and> ?empty")
proof
  have inv: "sv_inv sv" by (rule sv_machine.inv_reachable [OF assms])
  show backed: ?backed
  proof (intro ballI)
    fix kc assume kc: "kc \<in> set (tx_consumers (sv_balancer sv))"
    obtain k c where [simp]: "kc = (k, c)" by fastforce
    from sv_invD(4) [OF inv, of k c] kc obtain i where "backed_by (sv_sessions sv) k c i" by auto
    with sv_invD(3) [OF inv, of i]
    show "case kc of (k, c) \<Rightarrow> \<exists>i < length (sv_sessions sv).
       se_identity (sv_sessions sv ! i) = k \<and> se_token (sv_sessions sv ! i) = tc_token c \<and>
       se_tx (sv_sessions sv ! i) = tc_tx c \<and> Some (se_rx_unsubscribe (sv_sessions sv ! i)) = tc_tx_unsubscribe c \<and>
       se_phase (sv_sessions sv ! i) \<le> Cleanup"
      by (auto simp: backed_by_def)
  qed
  show ?empty
  proof (intro impI, rule ccontr)
    assume fin: "\<forall>s \<in> set (sv_sessions sv). Resetting \<le> se_phase s" and "tx_consumers (sv_balancer sv) \<noteq> []"
    then obtain kc where "kc \<in> set (tx_consumers (sv_balancer sv))" by (meson hd_in_set)
    with backed obtain i where "i < length (sv_sessions sv)" "se_phase (sv_sessions sv ! i) \<le> Cleanup" by fastforce
    with fin show False by (metis less_eq_phase_def not_less_eq_eq nth_mem order_trans phase_rank.simps(2,3) numeral_2_eq_2 One_nat_def)
  qed
qed

theorem no_leaked_consumers_witness:
  "\<exists>c. hm_get (tx_consumers (sv_balancer reconnect_run)) ''v'' = Some c \<and>
     tc_token c \<in> se_token ` set (sv_sessions reconnect_run)"
proof -
  obtain c where c: "hm_get (tx_consumers (sv_balancer reconnect_run)) ''v'' = Some c"
    by (simp add: reconnect_run_def tx_stream_def server_init_def Let_def case_prod_beta)
  then have "(''v'', c) \<in> set (tx_consumers (sv_balancer reconnect_run))"
    by (simp add: hm_get_def map_of_SomeD)
  with no_leaked_consumers [OF reconnect_run_reachable [of "\<lambda>ch msg w. (True, w)"]]
  obtain i where "i < length (sv_sessions reconnect_run)" "se_token (sv_sessions reconnect_run ! i) = tc_token c"
    by fastforce
  with c show ?thesis by (metis image_eqI nth_mem)
qed

text \<open>
  C8. A displaced task is told, and ends without harm. In every reachable state, a running task that no
  longer owns its identity (because the client connected again, or because it was evicted) has been
  sent its signal. The signal alone takes it to its end, whatever the client and the network do: the
  task leaves its loop by the signal's branch, removes, resets and is finished. This leaves the owner
  of every identity as it was and touches no other task.
\<close>

theorem displaced_task_ends_safely:
  assumes "(server_step gen_range send)\<^sup>*\<^sup>* (server_init inbox w) sv" and "i < length (sv_sessions sv)"
    and "se_phase (sv_sessions sv ! i) = Running"
    and "owner (sv_balancer sv) (se_identity (sv_sessions sv ! i)) \<noteq> Some (se_token (sv_sessions sv ! i))"
  shows "se_rx_unsubscribe (sv_sessions sv ! i) \<in> set (sv_notified sv) \<and>
     (\<exists>s1 sv1. session_select send Unsubscribed_signal (sv_sessions sv ! i) (sv_balancer sv) (sv_runtime sv) =
          Done (s1, sv_balancer sv, sv_runtime sv, []) \<and>
        sv1 = sv\<lparr>sv_sessions := (sv_sessions sv)[i := s1]\<rparr> \<and>
        server_step gen_range send sv sv1 \<and>
        server_step gen_range send sv1 (session_unsubscribe i sv1) \<and>
        server_step gen_range send (session_unsubscribe i sv1) (session_reset i (session_unsubscribe i sv1)) \<and>
        sv_sessions (session_reset i (session_unsubscribe i sv1)) =
          (sv_sessions sv)[i := (sv_sessions sv ! i)\<lparr>se_phase := Finished\<rparr>] \<and>
        owner (sv_balancer (session_reset i (session_unsubscribe i sv1))) = owner (sv_balancer sv))"
proof
  have inv: "sv_inv sv" by (rule sv_machine.inv_reachable [OF assms(1)])
  from sv_invD(5,3) [OF inv assms(2)] assms(3,4)
  show told: "se_rx_unsubscribe (sv_sessions sv ! i) \<in> set (sv_notified sv)" by (auto simp: told_def)
  let ?s1 = "(sv_sessions sv ! i)\<lparr>se_phase := Cleanup\<rparr>"
  let ?sv1 = "sv\<lparr>sv_sessions := (sv_sessions sv)[i := ?s1]\<rparr>"
  have i1: "i < length (sv_sessions ?sv1)" "se_phase (sv_sessions ?sv1 ! i) = Cleanup" using assms(2) by simp_all
  have "server_step gen_range send ?sv1 (session_unsubscribe i ?sv1)" using i1 by (rule sv_unsubscribe)
  moreover have "server_step gen_range send (session_unsubscribe i ?sv1) (session_reset i (session_unsubscribe i ?sv1))"
    by (rule sv_reset) (use i1 in \<open>simp_all add: session_unsubscribe_def Let_def case_prod_beta\<close>)
  ultimately show "\<exists>s1 sv1. session_select send Unsubscribed_signal (sv_sessions sv ! i) (sv_balancer sv) (sv_runtime sv) =
          Done (s1, sv_balancer sv, sv_runtime sv, []) \<and>
        sv1 = sv\<lparr>sv_sessions := (sv_sessions sv)[i := s1]\<rparr> \<and>
        server_step gen_range send sv sv1 \<and>
        server_step gen_range send sv1 (session_unsubscribe i sv1) \<and>
        server_step gen_range send (session_unsubscribe i sv1) (session_reset i (session_unsubscribe i sv1)) \<and>
        sv_sessions (session_reset i (session_unsubscribe i sv1)) =
          (sv_sessions sv)[i := (sv_sessions sv ! i)\<lparr>se_phase := Finished\<rparr>] \<and>
        owner (sv_balancer (session_reset i (session_unsubscribe i sv1))) = owner (sv_balancer sv)"
    using notified_task_leaves [OF assms(2,3) told] end_task_fields(1,2) [OF i1(1)] assms(2,4)
    by (intro exI [of _ ?s1] exI [of _ ?sv1]) (simp add: end_task_def)
qed

theorem displaced_task_ends_safely_witness:
  "\<exists>sv'. (server_step gen_last (\<lambda>ch msg w. (True, w)))\<^sup>*\<^sup>* reconnect_run sv' \<and> 0 \<in> set (sv_notified reconnect_run) \<and>
     se_phase (sv_sessions sv' ! 0) = Finished \<and> owner (sv_balancer sv') ''v'' = Some ''t2''"
proof -
  let ?step = "server_step gen_last (\<lambda>ch msg w. (True, w))"
  have ss: "map se_phase (sv_sessions reconnect_run) = [Running, Running]"
    "map se_identity (sv_sessions reconnect_run) = [''v'', ''v'']" "map se_token (sv_sessions reconnect_run) = [''t1'', ''t2'']"
    "map se_rx_unsubscribe (sv_sessions reconnect_run) = [0, 1]"
    and own: "owner (sv_balancer reconnect_run) ''v'' = Some ''t2''"
    by (simp_all add: reconnect_run_def tx_stream_def server_init_def Let_def case_prod_beta)
  then have "length (sv_sessions reconnect_run) = 2" by (metis length_map list.size(3,4) numeral_2_eq_2 One_nat_def add.right_neutral add_Suc_right)
  with ss have i: "0 < length (sv_sessions reconnect_run)" "se_phase (sv_sessions reconnect_run ! 0) = Running"
    "se_identity (sv_sessions reconnect_run ! 0) = ''v''" "se_token (sv_sessions reconnect_run ! 0) = ''t1''"
    "se_rx_unsubscribe (sv_sessions reconnect_run ! 0) = 0"
    by (metis nth_Cons_0 nth_map zero_less_numeral)+
  with own displaced_task_ends_safely [OF reconnect_run_reachable i(1,2), of "\<lambda>ch msg w. (True, w)"]
  obtain sv1 where told: "0 \<in> set (sv_notified reconnect_run)"
    and steps: "?step reconnect_run sv1" "?step sv1 (session_unsubscribe 0 sv1)"
      "?step (session_unsubscribe 0 sv1) (session_reset 0 (session_unsubscribe 0 sv1))"
    and after: "sv_sessions (session_reset 0 (session_unsubscribe 0 sv1)) =
        (sv_sessions reconnect_run)[0 := (sv_sessions reconnect_run ! 0)\<lparr>se_phase := Finished\<rparr>]"
      "owner (sv_balancer (session_reset 0 (session_unsubscribe 0 sv1))) = owner (sv_balancer reconnect_run)"
    by auto
  have "?step\<^sup>*\<^sup>* reconnect_run (session_reset 0 (session_unsubscribe 0 sv1))"
    using steps by (meson converse_rtranclp_into_rtranclp r_into_rtranclp)
  with told after i(1) own show ?thesis by (intro exI [of _ "session_reset 0 (session_unsubscribe 0 sv1)"]) simp
qed

text \<open>
  C36. A late cleanup erases the metrics of the new connection. When a task that lost its identity to
  a newer connection finishes, it still removes the connected-stake gauge and the ping histogram of
  the identity as its last actions, although the newer connection stays registered; the gauge then
  reads as if nobody were connected.
\<close>

theorem late_cleanup_erases_new_gauge:
  assumes "i < length (sv_sessions sv)" and "se_phase (sv_sessions sv ! i) = Cleanup"
    and "se_identity (sv_sessions sv ! i) = ident"
    and "owner (sv_balancer sv) ident = Some tok" and "tok \<noteq> se_token (sv_sessions sv ! i)"
  shows "owner (sv_balancer (session_reset i (session_unsubscribe i sv))) ident = Some tok \<and>
     sv_metrics (session_reset i (session_unsubscribe i sv)) =
       sv_metrics sv @ [Remove_labels CLIENT_PING_RTT [ident], Remove_labels SERVER_TOTAL_CONNECTED_STAKE [ident]] \<and>
     gauge_last (sv_metrics (session_reset i (session_unsubscribe i sv))) SERVER_TOTAL_CONNECTED_STAKE [ident] = 0"
  using end_task_fields(2,3) [OF assms(1)] assms(3-5)
  by (auto simp: end_task_def reset_client_metrics_def gauge_last_def)

theorem late_cleanup_erases_new_gauge_witness:
  "\<exists>sv :: unit server. owner (sv_balancer (session_reset 0 (session_unsubscribe 0 sv))) ''v'' = Some ''t2'' \<and>
     gauge_last (sv_metrics sv) SERVER_TOTAL_CONNECTED_STAKE [''v''] = 1 \<and>
     gauge_last (sv_metrics (session_reset 0 (session_unsubscribe 0 sv))) SERVER_TOTAL_CONNECTED_STAKE [''v''] = 0"
proof -
  let ?ss = "sv_sessions reconnect_run"
  let ?sv = "reconnect_run\<lparr>sv_sessions := ?ss[0 := (?ss ! 0)\<lparr>se_phase := Cleanup\<rparr>]\<rparr>"
  have ss: "0 < length ?ss" "se_identity (?ss ! 0) = ''v''" "se_token (?ss ! 0) = ''t1''"
    and own: "owner (sv_balancer reconnect_run) ''v'' = Some ''t2''"
    by (simp_all add: reconnect_run_def tx_stream_def server_init_def Let_def case_prod_beta nth_append)
  have "0 < length (sv_sessions ?sv)" "se_phase (sv_sessions ?sv ! 0) = Cleanup"
    "se_identity (sv_sessions ?sv ! 0) = ''v''" "owner (sv_balancer ?sv) ''v'' = Some ''t2''"
    "''t2'' \<noteq> se_token (sv_sessions ?sv ! 0)"
    using ss own by simp_all
  note after = late_cleanup_erases_new_gauge [OF this]
  have gauge: "gauge_last (sv_metrics reconnect_run) SERVER_TOTAL_CONNECTED_STAKE [''v''] = 1"
    by (simp add: reconnect_run_def tx_stream_def server_init_def Let_def case_prod_beta gauge_last_def
        subscribe_def recalc_total_connected_stake_def drop_consumer_def hm_values_def balancer_new_def
        stake_of_def as_i64_def hm_get_Cons)
  then have "gauge_last (sv_metrics ?sv) SERVER_TOTAL_CONNECTED_STAKE [''v''] = 1" by simp
  with after show ?thesis by blast
qed

text \<open>
  Who a connection is. The identity of a connection is the first readable common name among
  all its certificates that parse, in order; a connection without one is refused and changes
  nothing, which includes every connection when TLS is off and no certificate is presented.
\<close>

theorem connection_identity:
  "get_identity_from_req from_der common_names as_str peer_certs =
     (case peer_certs of
        None \<Rightarrow> None
      | Some ders \<Rightarrow> (case concat (map (\<lambda>cert. List.map_filter as_str (common_names cert)) (List.map_filter from_der ders))
          of [] \<Rightarrow> None | n # _ \<Rightarrow> Some n)) \<and>
   tx_stream (get_identity_from_req from_der common_names as_str None) addr tok now1 now2 sv =
     Done (Inl ''Not authenticated!'', sv)"
  by (auto simp: get_identity_from_req_def first_identity_conv readable_names_def tx_stream_def split: option.split)

end
