(* ===== verification/Server_Main.thy ===== *)
theory Server_Main
  imports Rpc_Server Grpc_Sessions
begin

text \<open>
  \<^verbatim>\<open>server/main.rs\<close>: the start of the server and the task that reloads stake weights when
  the epoch changes. The start is modelled up to the point where the gRPC server runs: which checks
  end the process, and the configuration and state everything else starts from. The answers of
  libraries and machine during the start are the fields of \<open>start_env\<close>.
\<close>

section \<open>Parameters\<close>

record params =
  pa_tls_grpc_server_cert :: "string option"
  pa_tls_grpc_server_key :: "string option"
  pa_tls_grpc_ca_cert :: "string option"
  pa_grpc_addr :: string
  pa_metrics_addr :: string
  pa_rpc_addr :: string
  pa_rpc_url :: string
  pa_ws_rpc_url :: string
  pa_rpc_commitment :: string
  pa_test_partners :: "string list option"
  pa_stake_override_identity :: "string list"
  pa_stake_override_sol :: "u64 list"
  pa_jwt_public_key :: "string option"
  pa_debug :: "bool option"

definition stake_override :: "params \<Rightarrow> (string, u64) hmap" where
  "stake_override p = hm_collect (zip (pa_stake_override_identity p) (pa_stake_override_sol p))"

section \<open>The stake task\<close>

record stake_task =
  st_last_epoch :: u64
  st_balancer :: balancer

text \<open>
  One round, with what the RPC node answers: the epoch info, and the vote accounts, asked for only
  when the epoch is new.
\<close>

definition stake_round ::
  "u64 \<Rightarrow> (string, u64) hmap \<Rightarrow> string + u64 \<Rightarrow> string + vote_account list \<Rightarrow> stake_task \<Rightarrow> stake_task" where
  "stake_round lamports_per_sol overrides epoch_resp votes_resp t =
     (let epoch = (case get_current_epoch epoch_resp of Inr e \<Rightarrow> e | Inl err \<Rightarrow> st_last_epoch t)
      in if st_last_epoch t \<noteq> epoch
         then (case get_activated_stake lamports_per_sol votes_resp of
                 Inr weights \<Rightarrow>
                   t\<lparr>st_balancer := update_stake_weights (hm_collect (weights @ overrides)) (st_balancer t),
                     st_last_epoch := epoch\<rparr>
               | Inl err \<Rightarrow> t)
         else t)"

section \<open>Start of the server\<close>

datatype level = DEBUG | INFO

text \<open>\<open>init_ok\<close> and \<open>set_default\<close> are the results of the two logging crates.\<close>

definition setup_tracing :: "bool \<Rightarrow> (level \<Rightarrow> bool) \<Rightarrow> bool \<Rightarrow> level outcome" where
  "setup_tracing init_ok set_default debug =
     (if \<not> init_ok then Panic ''Setting up log compatibility failed''
      else let lvl = (if debug then DEBUG else INFO)
           in if set_default lvl then Done lvl else Panic ''called `Result::unwrap()` on an `Err` value'')"

definition setup_panic_hook :: "'a outcome \<Rightarrow> 'a process" where
  "setup_panic_hook r = exit_on_panic r"

definition solana_client :: "(string \<Rightarrow> 'c option) \<Rightarrow> string \<Rightarrow> string \<Rightarrow> (string \<times> 'c) outcome" where
  "solana_client parse_commitment url commitment =
     outcome_bind (unwrap (parse_commitment commitment)) (\<lambda>c. Done (url, c))"

text \<open>What the libraries and the machine answer during the start.\<close>

record ('c, 'addr, 'cluster, 'key) start_env =
  sn_log_init :: bool
  sn_log_default :: "level \<Rightarrow> bool"
  sn_parse_commitment :: "string \<Rightarrow> 'c option"
  sn_pubsub_new :: "string \<Rightarrow> string + unit"
  sn_to_socket_addrs :: "string \<Rightarrow> 'addr list option"
  sn_make_gossip_node :: "'addr option \<Rightarrow> 'cluster"
  sn_parse_addr :: "string \<Rightarrow> 'addr option"
  sn_load_key :: "string \<Rightarrow> string + 'key"
  sn_start_http :: "'addr \<Rightarrow> bool"
  sn_read_file :: "string \<Rightarrow> string + string"
  sn_tls_accepts :: "tls_config \<Rightarrow> string + unit"
  sn_serve :: "tls_config option \<Rightarrow> 'addr \<Rightarrow> string + unit"

record ('c, 'cluster, 'key) running =
  ru_level :: level
  ru_client :: "string \<times> 'c"
  ru_balancer :: balancer
  ru_cluster :: 'cluster
  ru_info_map :: "(string, leader_info) hmap"
  ru_stakes :: stake_task
  ru_listener :: "'key rpc_listener"

text \<open>
  Everything \<^verbatim>\<open>main\<close> starts before the gRPC server, in order: logging, the RPC client, the signature
  watcher with its inbox, the balancer, the websocket client, the updater, the metrics exporter, the
  stake task, the JSON-RPC server. An error of the websocket client is returned, all others panic.
\<close>

definition server_start ::
  "('c, 'addr, 'cluster, 'key) start_env \<Rightarrow> chan \<Rightarrow> params \<Rightarrow> (string + ('c, 'cluster, 'key) running) outcome" where
  "server_start n tx_signatures p =
     outcome_bind (setup_tracing (sn_log_init n) (sn_log_default n) (case pa_debug p of Some d \<Rightarrow> d | None \<Rightarrow> False)) (\<lambda>lvl.
     outcome_bind (solana_client (sn_parse_commitment n) (pa_rpc_url p) (pa_rpc_commitment p)) (\<lambda>client.
     let b = balancer_new tx_signatures in
     (case sn_pubsub_new n (pa_ws_rpc_url p) of
        Inl err \<Rightarrow> Done (Inl err)
      | Inr _ \<Rightarrow>
     outcome_bind (balancer_updater (sn_to_socket_addrs n) (sn_make_gossip_node n)) (\<lambda>(cluster, info_map).
     outcome_bind (unwrap (sn_parse_addr n (pa_metrics_addr p))) (\<lambda>_.
     outcome_bind (unwrap (sn_parse_addr n (pa_rpc_addr p))) (\<lambda>rpc_addr.
     outcome_bind (spawn_rpc_server (sn_load_key n) (sn_start_http n) rpc_addr (pa_jwt_public_key p) (pa_test_partners p)) (\<lambda>listener.
     Done (Inr \<lparr>ru_level = lvl, ru_client = client, ru_balancer = b, ru_cluster = cluster, ru_info_map = info_map,
                ru_stakes = \<lparr>st_last_epoch = 0, st_balancer = b\<rparr>, ru_listener = listener\<rparr>))))))))"

text \<open>
  The rest of \<^verbatim>\<open>main\<close>: the address is parsed and the gRPC server runs until it stops. What comes out
  is what \<^verbatim>\<open>main\<close> returns, and with it the process ends while all other tasks are still there.
\<close>

definition grpc_main ::
  "('c, 'addr, 'cluster, 'key) start_env \<Rightarrow> params \<Rightarrow> (string + unit) outcome" where
  "grpc_main n p =
     outcome_bind (unwrap (sn_parse_addr n (pa_grpc_addr p))) (\<lambda>grpc_addr.
       Done (spawn_grpc_server (sn_read_file n) (sn_tls_accepts n) (sn_serve n) grpc_addr
         (pa_tls_grpc_server_cert p) (pa_tls_grpc_server_key p) (pa_tls_grpc_ca_cert p)))"

definition server_main ::
  "('c, 'addr, 'cluster, 'key) start_env \<Rightarrow> chan \<Rightarrow> params \<Rightarrow> (string + unit) outcome" where
  "server_main n tx_signatures p =
     outcome_bind (server_start n tx_signatures p) (\<lambda>started.
       case started of Inl err \<Rightarrow> Done (Inl err) | Inr _ \<Rightarrow> grpc_main n p)"

section \<open>Lemmas\<close>

lemmas start_defs = server_start_def setup_tracing_def solana_client_def balancer_updater_def spawn_rpc_server_def unwrap_def

lemma hm_get_collect_append:
  assumes "hm_ok weights" and "hm_ok overrides"
  shows "hm_get (hm_collect (weights @ overrides)) k =
     (case hm_get overrides k of Some w \<Rightarrow> Some w | None \<Rightarrow> hm_get weights k)"
proof -
  have "map_of (rev weights) k = hm_get weights k" "map_of (rev overrides) k = hm_get overrides k"
    using hm_get_collect_distinct [of weights k] hm_get_collect_distinct [of overrides k] assms
    unfolding hm_get_collect hm_ok_def by (simp_all add: hm_get_def)
  then show ?thesis by (simp add: hm_get_collect map_add_def split: option.split)
qed

lemma hm_get_stake_override:
  "hm_get (stake_override p) k = map_of (rev (zip (pa_stake_override_identity p) (pa_stake_override_sol p))) k"
  by (simp add: stake_override_def hm_get_collect)

section \<open>Properties\<close>

text \<open>
  C34. Reloading stakes. A round changes nothing when the epoch cannot be read, is the one already
  loaded, or the vote accounts cannot be fetched (so the next round tries again). Otherwise every
  identity gets its override if the command line gives one (the last one wins, and identities
  without a matching amount are ignored), else its activated stake in whole SOL; every connected
  consumer carries the new stake, 1 if the table does not know it; and a further round in the same
  epoch does nothing. The total of connected stakes is left as it was.
\<close>

theorem stake_round_reloads_once_per_epoch:
  assumes "votes_resp = Inr votes" and "epoch_resp = Inr e" and "e \<noteq> st_last_epoch t"
    and "t' = stake_round lamports (stake_override p) epoch_resp votes_resp t"
    and "weights = hm_collect (map (\<lambda>a. (va_node_pubkey a, va_activated_stake a div lamports)) votes)"
  shows "hm_get (stake_weights (st_balancer t')) ident =
       (case map_of (rev (zip (pa_stake_override_identity p) (pa_stake_override_sol p))) ident of
          Some w \<Rightarrow> Some w | None \<Rightarrow> hm_get weights ident) \<and>
     hm_get (tx_consumers (st_balancer t')) ident =
       map_option (\<lambda>c. c\<lparr>tc_stake := stake_of (stake_weights (st_balancer t')) ident\<rparr>)
         (hm_get (tx_consumers (st_balancer t)) ident) \<and>
     stake_round lamports (stake_override p) epoch_resp votes' t' = t' \<and>
     stake_round lamports (stake_override p) epoch_resp (Inl err) t = t \<and>
     stake_round lamports (stake_override p) (Inl err) votes' t = t \<and>
     total_connected_stake (st_balancer t') = total_connected_stake (st_balancer t)"
proof -
  have t': "t' = t\<lparr>st_balancer := update_stake_weights (hm_collect (weights @ stake_override p)) (st_balancer t), st_last_epoch := e\<rparr>"
    using assms(1-3) by (simp add: assms(4,5) stake_round_def get_current_epoch_def get_activated_stake_def)
  have ok: "hm_ok weights" "hm_ok (stake_override p)" by (simp_all add: assms(5) stake_override_def)
  have "hm_get (hm_collect (weights @ stake_override p)) ident =
      (case map_of (rev (zip (pa_stake_override_identity p) (pa_stake_override_sol p))) ident of
         Some w \<Rightarrow> Some w | None \<Rightarrow> hm_get weights ident)"
    unfolding hm_get_collect_append [OF ok] hm_get_stake_override ..
  moreover have "stake_round lamports (stake_override p) epoch_resp votes' t' = t'"
    using assms(2) by (simp add: t' stake_round_def get_current_epoch_def)
  ultimately show ?thesis
    using assms(2) by (simp add: t' update_stake_weights_def stake_round_def get_current_epoch_def get_activated_stake_def)
qed

definition params_demo :: params where
  "params_demo =
     \<lparr>pa_tls_grpc_server_cert = None, pa_tls_grpc_server_key = None, pa_tls_grpc_ca_cert = None,
      pa_grpc_addr = ''a'', pa_metrics_addr = ''b'', pa_rpc_addr = ''c'', pa_rpc_url = ''http'',
      pa_ws_rpc_url = ''ws'', pa_rpc_commitment = ''finalized'',
      pa_test_partners = None, pa_stake_override_identity = [''b'', ''z''], pa_stake_override_sol = [9],
      pa_jwt_public_key = None, pa_debug = None\<rparr>"

theorem stake_round_reloads_once_per_epoch_witness:
  "hm_get (stake_weights (st_balancer (stake_round 1000 (stake_override params_demo) (Inr 7)
       (Inr [\<lparr>va_node_pubkey = ''a'', va_activated_stake = 3500\<rparr>]) \<lparr>st_last_epoch = 6, st_balancer = two_clients\<rparr>))) ''b'' = Some 9"
  using stake_round_reloads_once_per_epoch [OF refl refl _ refl refl, of 7 "\<lparr>st_last_epoch = 6, st_balancer = two_clients\<rparr>"
      1000 params_demo "[\<lparr>va_node_pubkey = ''a'', va_activated_stake = 3500\<rparr>]" "''b''"]
  by (simp add: params_demo_def)

text \<open>
  When the server starts, and how. All of these are needed and together enough: logging can be
  set up, the commitment parses, the websocket client connects, the gossip entry point resolves,
  the metrics and RPC addresses parse, the public key loads if one is configured, and the RPC
  socket binds. The start returns an error exactly when everything before the websocket client
  succeeds and that fails; all other failures panic. A started server has no clients and no leader
  data, its request numbers begin at 0, and its listener has exactly the configured public key and
  test partners.
\<close>

theorem server_starts_iff:
  defines "early \<equiv> \<lambda>(n :: ('c, 'addr, 'cluster, 'key) start_env) p. sn_log_init n \<and>
     sn_log_default n (if pa_debug p = Some True then DEBUG else INFO) \<and> sn_parse_commitment n (pa_rpc_commitment p) \<noteq> None"
  shows "(server_start n inbox p = Done (Inl err) \<longleftrightarrow> early n p \<and> sn_pubsub_new n (pa_ws_rpc_url p) = Inl err) \<and>
   ((\<exists>r. server_start n inbox p = Done (Inr r)) \<longleftrightarrow>
      early n p \<and> sn_pubsub_new n (pa_ws_rpc_url p) = Inr () \<and>
      sn_to_socket_addrs n GOSSIP_ENTRYPOINT \<noteq> None \<and> sn_parse_addr n (pa_metrics_addr p) \<noteq> None \<and>
      (\<exists>a. sn_parse_addr n (pa_rpc_addr p) = Some a \<and> sn_start_http n a) \<and>
      (case pa_jwt_public_key p of None \<Rightarrow> True | Some path \<Rightarrow> (\<exists>key. sn_load_key n path = Inr key))) \<and>
   (\<forall>r. server_start n inbox p = Done (Inr r) \<longrightarrow>
      ru_balancer r = balancer_new inbox \<and> ru_info_map r = [] \<and> rl_req_id_gen (ru_listener r) = 0 \<and>
      (case pa_jwt_public_key p of
         None \<Rightarrow> rl_public_key (ru_listener r) = None
       | Some path \<Rightarrow> (\<exists>key. sn_load_key n path = Inr key \<and> rl_public_key (ru_listener r) = Some key)) \<and>
      rl_partners (ru_listener r) = (case pa_test_partners p of Some ps \<Rightarrow> ps | None \<Rightarrow> []))"
proof -
  have debug: "(case pa_debug p of Some d \<Rightarrow> d | None \<Rightarrow> False) \<longleftrightarrow> pa_debug p = Some True"
    by (cases "pa_debug p") simp_all
  show ?thesis
    unfolding early_def
    by (intro conjI; auto simp: start_defs debug Let_def split: option.splits sum.splits if_splits)
qed

text \<open>An environment in which everything answers, for the witness.\<close>

definition start_demo :: "(string, string, unit, unit) start_env" where
  "start_demo =
     \<lparr>sn_log_init = True, sn_log_default = (\<lambda>lvl. True), sn_parse_commitment = Some, sn_pubsub_new = (\<lambda>url. Inr ()),
      sn_to_socket_addrs = (\<lambda>host. Some [host]), sn_make_gossip_node = (\<lambda>entry. ()), sn_parse_addr = Some,
      sn_load_key = (\<lambda>path. Inl ''no such file''), sn_start_http = (\<lambda>a. True), sn_read_file = (\<lambda>path. Inl ''no such file''),
      sn_tls_accepts = (\<lambda>c. Inr ()), sn_serve = (\<lambda>tls a. Inr ())\<rparr>"

end
