(* ===== verification/Server_System.thy ===== *)
theory Server_System
  imports Server_Main "HOL-Library.Code_Target_Nat"
begin

text \<open>
  The server as one process: all its tasks on their shared state. The state is the gRPC side of
  \<open>Grpc_Server\<close> (balancer, connection tasks, metrics, runtime) together with the JSON-RPC listener and
  the calls it has accepted, the channel to the signature watcher, the watcher's queue and the
  checkers it spawned, the leader stream and the channel of leader sets, the updater's records and
  the stake task's epoch.

  An event is one atomic action of one task: the code between two awaits, or under one lock, with
  what the outside world answers to it. \<open>sys_exec\<close> runs it; a panic of any task ends the process
  with code 1, and so does an error of the gRPC server, which \<^verbatim>\<open>main\<close> waits for and returns; when that
  server stops without an error the process ends with code 0 (\<open>sys_quits\<close>).
  The libraries are the fields of \<open>sys_env\<close>. An HTTP request may hold several calls (a JSON-RPC
  batch), which share its metadata; they run in any order, interleaved with everything else.
\<close>

section \<open>State\<close>

record ('g, 'w, 'key, 'hv, 'bytes, 's, 'p, 'a) sys_env =
  ev_gen_range :: "'g \<Rightarrow> u64 \<Rightarrow> u64 \<times> 'g"
  ev_send :: "chan \<Rightarrow> response_envelope \<Rightarrow> 'w \<Rightarrow> bool \<times> 'w"
  ev_verify :: "'key \<Rightarrow> string \<Rightarrow> string + jwt"
  ev_to_str :: "'hv \<Rightarrow> string option"
  ev_base64 :: "string \<Rightarrow> 'bytes option"
  ev_decode :: "'bytes \<Rightarrow> string + 's list"
  ev_sig_string :: "'s \<Rightarrow> string"
  ev_pubkey :: "string \<Rightarrow> 'p option"
  ev_addr_string :: "'a \<Rightarrow> string"
  ev_gauge :: "metric_op list \<Rightarrow> metric \<Rightarrow> string list \<Rightarrow> int"
  ev_encode :: "metric_op list \<Rightarrow> 8 word list option"
  ev_utf8 :: "8 word list \<Rightarrow> string option"
  ev_lamports :: u64
  ev_overrides :: "(string, u64) hmap"

text \<open>
  The last three fields record history for the statements: the sessions handed to the watcher's
  inbox, those put into a bundle, and those whose check is done, each in order.
\<close>

record ('w, 'key, 's) system =
  sy_server :: "'w server"
  sy_listener :: "'key rpc_listener"
  sy_pending :: "(rpc_state \<times> rpc_method option) list"
  sy_inbox :: "'s signature_record list"
  sy_queue :: "'s signature_record list"
  sy_checking :: "'s signature_record list list"
  sy_stream :: "leaders_state option"
  sy_leader_msgs :: "string list list"
  sy_info_map :: "(string, leader_info) hmap"
  sy_last_epoch :: u64
  sy_metrics_up :: bool
  sy_handed :: "'s signature_record list"
  sy_bundled :: "'s signature_record list"
  sy_checked :: "'s signature_record list"

definition sys_init :: "chan \<Rightarrow> 'w \<Rightarrow> 'key rpc_listener \<Rightarrow> string + unit \<Rightarrow> ('w, 'key, 's) system" where
  "sys_init inbox w listener subscribed =
     \<lparr>sy_server = (server_init inbox w)\<lparr>sv_metrics := []\<rparr>, sy_listener = listener, sy_pending = [],
      sy_inbox = [], sy_queue = [], sy_checking = [],
      sy_stream = (case subscribed of Inr _ \<Rightarrow> Some leaders_init | Inl err \<Rightarrow> None),
      sy_leader_msgs = [], sy_info_map = [], sy_last_epoch = 0, sy_metrics_up = False,
      sy_handed = [], sy_bundled = [], sy_checked = []\<rparr>"

section \<open>Events\<close>

datatype ('g, 'w, 'hv, 'p, 'a, 'e) sys_event =
    Connect "string option" "string option" string instant instant
  | Session nat session_event
  | Session_unsubscribe nat
  | Session_reset nat
  | Http_request bool "'hv option" "rpc_method option list"
  | Run_call nat 'g instant int int
  | Watch_arrival instant
  | Watch_tick "nat \<Rightarrow> instant"
  | Check_done nat "string + 'e transaction_status option list"
  | Leader_stream leaders_event
  | Refresh_nodes "string + 'a contact_node list" "string + validator_record list" "string + jito_validator_record list"
  | Install_leaders "'p \<Rightarrow> 'a option"
  | Stake_task "string + u64" "string + vote_account list"
  | Metrics_task bool
  | Metrics_request string "string list"
  | Grpc_server_ends "(string + unit) outcome"
  | Rehash "(string, tx_consumer) hmap"
  | Network 'w

text \<open>What the listener and the handler of a call do.\<close>

definition http_request ::
  "('g, 'w, 'key, 'hv, 'bytes, 's, 'p, 'a) sys_env \<Rightarrow> bool \<Rightarrow> 'hv option \<Rightarrow> rpc_method option list \<Rightarrow>
   ('w, 'key, 's) system \<Rightarrow> ('w, 'key, 's) system outcome" where
  "http_request ev coin hdr calls s =
     outcome_bind (meta_extractor (ev_verify ev) (ev_to_str ev) coin hdr (sy_listener s)) (\<lambda>(meta, l).
       Done (s\<lparr>sy_listener := l, sy_pending := sy_pending s @ map (Pair meta) calls\<rparr>))"

text \<open>\<open>now1\<close> and \<open>now2\<close> are the wall clock when the call starts and when its session is made.\<close>

definition run_call ::
  "('g, 'w, 'key, 'hv, 'bytes, 's, 'p, 'a) sys_env \<Rightarrow> nat \<Rightarrow> 'g \<Rightarrow> instant \<Rightarrow> int \<Rightarrow> int \<Rightarrow>
   ('w, 'key, 's) system \<Rightarrow> ('w, 'key, 's) system outcome" where
  "run_call ev i rng created now1 now2 s =
     (let (meta, meth) = sy_pending s ! i; sv = sy_server s
      in outcome_bind
           (get_io_handler (ev_gen_range ev) (ev_send ev) (ev_base64 ev) (ev_decode ev) (ev_sig_string ev) (ev_gauge ev)
              created (time_ms now1) (time_ms now2) rng meta meth (sv_metrics sv) (sv_balancer sv) (sv_runtime sv))
           (\<lambda>(r, ops, b', w', out).
              Done (s\<lparr>sy_pending := take i (sy_pending s) @ drop (Suc i) (sy_pending s),
                      sy_server := sv\<lparr>sv_balancer := b', sv_runtime := w', sv_metrics := sv_metrics sv @ ops\<rparr>,
                      sy_inbox := sy_inbox s @ (case out of Some session \<Rightarrow> [session] | None \<Rightarrow> []),
                      sy_handed := sy_handed s @ (case out of Some session \<Rightarrow> [session] | None \<Rightarrow> [])\<rparr>)))"

text \<open>The watcher's two branches, and the end of a checker with what the chain answered.\<close>

definition watch_arrival :: "instant \<Rightarrow> ('w, 'key, 's) system \<Rightarrow> ('w, 'key, 's) system" where
  "watch_arrival now s =
     (case sy_inbox s of
        [] \<Rightarrow> s
      | rec # rest \<Rightarrow> s\<lparr>sy_inbox := rest, sy_queue := snd (watcher_step (Signature_arrived rec now) (sy_queue s))\<rparr>)"

definition watch_tick :: "(nat \<Rightarrow> instant) \<Rightarrow> ('w, 'key, 's) system \<Rightarrow> ('w, 'key, 's) system" where
  "watch_tick clock s =
     (let (bundles, q) = watcher_step (Bundle_signal clock) (sy_queue s)
      in s\<lparr>sy_queue := q, sy_checking := sy_checking s @ bundles, sy_bundled := sy_bundled s @ concat bundles\<rparr>)"

definition check_done ::
  "nat \<Rightarrow> string + 'e transaction_status option list \<Rightarrow> ('w, 'key, 's) system \<Rightarrow> ('w, 'key, 's) system" where
  "check_done i resp s =
     (let records = sy_checking s ! i; sv = sy_server s
      in s\<lparr>sy_checking := take i (sy_checking s) @ drop (Suc i) (sy_checking s),
           sy_server := sv\<lparr>sv_metrics := sv_metrics sv @ signature_checker (\<lambda>_. resp) records\<rparr>,
           sy_checked := sy_checked s @ records\<rparr>)"

text \<open>The leader stream; once it has ended it does nothing more.\<close>

definition leader_stream :: "leaders_event \<Rightarrow> ('w, 'key, 's) system \<Rightarrow> ('w, 'key, 's) system outcome" where
  "leader_stream e s =
     (case sy_stream s of
        None \<Rightarrow> Done s
      | Some st \<Rightarrow>
          outcome_bind (leaders_step e st) (\<lambda>r.
            Done (case r of
                    Inl err \<Rightarrow> s\<lparr>sy_stream := None\<rparr>
                  | Inr (st', out) \<Rightarrow> s\<lparr>sy_stream := Some st',
                      sy_leader_msgs := sy_leader_msgs s @ (case out of Some ls \<Rightarrow> [ls] | None \<Rightarrow> [])\<rparr>)))"

text \<open>The updater's two branches on the shared balancer.\<close>

definition with_updater ::
  "('p \<Rightarrow> string option) \<Rightarrow> (string \<Rightarrow> 'p option) \<Rightarrow> updater_event \<Rightarrow> ('w, 'key, 's) system \<Rightarrow> ('w, 'key, 's) system outcome" where
  "with_updater tpu_quic pubkey e s =
     outcome_bind (updater_step pubkey tpu_quic e \<lparr>up_balancer = sv_balancer (sy_server s), up_info_map = sy_info_map s\<rparr>)
       (\<lambda>(u, effs). Done (s\<lparr>sy_server := perform effs ((sy_server s)\<lparr>sv_balancer := up_balancer u\<rparr>),
                            sy_info_map := up_info_map u\<rparr>))"

definition stake_task_round ::
  "('g, 'w, 'key, 'hv, 'bytes, 's, 'p, 'a) sys_env \<Rightarrow> string + u64 \<Rightarrow> string + vote_account list \<Rightarrow>
   ('w, 'key, 's) system \<Rightarrow> ('w, 'key, 's) system" where
  "stake_task_round ev epoch_resp votes_resp s =
     (let t = stake_round (ev_lamports ev) (ev_overrides ev) epoch_resp votes_resp
                \<lparr>st_last_epoch = sy_last_epoch s, st_balancer = sv_balancer (sy_server s)\<rparr>
      in s\<lparr>sy_last_epoch := st_last_epoch t, sy_server := (sy_server s)\<lparr>sv_balancer := st_balancer t\<rparr>\<rparr>)"

text \<open>
  The metrics task: it initialises the gauge and binds its address, then it answers requests.
\<close>

definition metrics_task ::
  "('g, 'w, 'key, 'hv, 'bytes, 's, 'p, 'a) sys_env \<Rightarrow> bool \<Rightarrow> ('w, 'key, 's) system \<Rightarrow> ('w, 'key, 's) system outcome" where
  "metrics_task ev bound s =
     outcome_bind (metrics_spawn bound id (ev_encode ev) (ev_utf8 ev) (sv_metrics (sy_server s))) (\<lambda>(ops, route).
       Done (s\<lparr>sy_server := (sy_server s)\<lparr>sv_metrics := ops\<rparr>, sy_metrics_up := True\<rparr>))"

definition metrics_request ::
  "('g, 'w, 'key, 'hv, 'bytes, 's, 'p, 'a) sys_env \<Rightarrow> string \<Rightarrow> string list \<Rightarrow> ('w, 'key, 's) system \<Rightarrow> ('w, 'key, 's) system outcome" where
  "metrics_request ev meth path s =
     outcome_bind (metrics_route (metrics_handler id (ev_encode ev) (ev_utf8 ev) (sv_metrics (sy_server s))) meth path)
       (\<lambda>reply. Done s)"

definition session_event_step ::
  "(chan \<Rightarrow> response_envelope \<Rightarrow> 'w \<Rightarrow> bool \<times> 'w) \<Rightarrow> nat \<Rightarrow> session_event \<Rightarrow> 'w server \<Rightarrow> 'w server outcome" where
  "session_event_step send i e sv =
     outcome_bind (session_select send e (sv_sessions sv ! i) (sv_balancer sv) (sv_runtime sv)) (\<lambda>(t, b, w, ops).
       Done (sv\<lparr>sv_sessions := (sv_sessions sv)[i := t], sv_balancer := b, sv_runtime := w,
                sv_metrics := sv_metrics sv @ ops\<rparr>))"

fun sys_exec ::
  "('g, 'w, 'key, 'hv, 'bytes, 's, 'p, 'a) sys_env \<Rightarrow> ('g, 'w, 'hv, 'p, 'a, 'e) sys_event \<Rightarrow>
   ('w, 'key, 's) system \<Rightarrow> ('w, 'key, 's) system outcome" where
  "sys_exec ev (Connect ident_opt addr tok now1 now2) s =
     outcome_bind (tx_stream ident_opt addr tok now1 now2 (sy_server s)) (\<lambda>(r, sv). Done (s\<lparr>sy_server := sv\<rparr>))"
| "sys_exec ev (Session i e) s =
     outcome_bind (session_event_step (ev_send ev) i e (sy_server s)) (\<lambda>sv. Done (s\<lparr>sy_server := sv\<rparr>))"
| "sys_exec ev (Session_unsubscribe i) s = Done (s\<lparr>sy_server := session_unsubscribe i (sy_server s)\<rparr>)"
| "sys_exec ev (Session_reset i) s = Done (s\<lparr>sy_server := session_reset i (sy_server s)\<rparr>)"
| "sys_exec ev (Http_request coin hdr calls) s = http_request ev coin hdr calls s"
| "sys_exec ev (Run_call i rng created now1 now2) s = run_call ev i rng created now1 now2 s"
| "sys_exec ev (Watch_arrival now) s = Done (watch_arrival now s)"
| "sys_exec ev (Watch_tick clock) s = Done (watch_tick clock s)"
| "sys_exec ev (Check_done i resp) s = Done (check_done i resp s)"
| "sys_exec ev (Leader_stream e) s = leader_stream e s"
| "sys_exec ev (Refresh_nodes nodes validators jito) s =
     with_updater (\<lambda>_. None) (ev_pubkey ev) (Nodes_hint (get_leader_info (ev_addr_string ev) nodes validators jito)) s"
| "sys_exec ev (Install_leaders gossip) s =
     (case sy_leader_msgs s of
        [] \<Rightarrow> Done s
      | plain # rest \<Rightarrow>
          with_updater (\<lambda>p. map_option (ev_addr_string ev) (gossip p)) (ev_pubkey ev) (New_leaders plain)
            (s\<lparr>sy_leader_msgs := rest\<rparr>))"
| "sys_exec ev (Stake_task epoch_resp votes_resp) s = Done (stake_task_round ev epoch_resp votes_resp s)"
| "sys_exec ev (Metrics_task bound) s = metrics_task ev bound s"
| "sys_exec ev (Metrics_request meth path) s = metrics_request ev meth path s"
| "sys_exec ev (Grpc_server_ends r) s = outcome_bind r (\<lambda>_. Done s)"
| "sys_exec ev (Rehash m) s =
     Done (s\<lparr>sy_server := (sy_server s)\<lparr>sv_balancer := (sv_balancer (sy_server s))\<lparr>tx_consumers := m\<rparr>\<rparr>\<rparr>)"
| "sys_exec ev (Network w) s = Done (s\<lparr>sy_server := (sy_server s)\<lparr>sv_runtime := w\<rparr>\<rparr>)"

text \<open>
  Which events can happen. A connection's token differs from those before (16 random alphanumeric
  characters); a task acts in its phase, and sees the unsubscribe signal only once it was sent; the
  chain answers with one status per signature; the exporter starts once; a change of the iteration
  order keeps the entries; between the server's own actions the network may change, but a message
  handed over stays handed over (\<open>msgs\<close> reads the messages handed over so far).
\<close>

fun sys_enabled ::
  "('w \<Rightarrow> (chan \<times> response_envelope) list) \<Rightarrow> ('g, 'w, 'hv, 'p, 'a, 'e) sys_event \<Rightarrow> ('w, 'key, 's) system \<Rightarrow> bool" where
  "sys_enabled msgs (Connect ident_opt addr tok now1 now2) s \<longleftrightarrow> tok \<notin> se_token ` set (sv_sessions (sy_server s))"
| "sys_enabled msgs (Session i e) s \<longleftrightarrow> i < length (sv_sessions (sy_server s)) \<and>
     se_phase (sv_sessions (sy_server s) ! i) = Running \<and>
     (case e of Unsubscribed_signal \<Rightarrow> se_rx_unsubscribe (sv_sessions (sy_server s) ! i) \<in> set (sv_notified (sy_server s)) | _ \<Rightarrow> True)"
| "sys_enabled msgs (Session_unsubscribe i) s \<longleftrightarrow> i < length (sv_sessions (sy_server s)) \<and>
     se_phase (sv_sessions (sy_server s) ! i) = Cleanup"
| "sys_enabled msgs (Session_reset i) s \<longleftrightarrow> i < length (sv_sessions (sy_server s)) \<and>
     se_phase (sv_sessions (sy_server s) ! i) = Resetting"
| "sys_enabled msgs (Run_call i rng created now1 now2) s \<longleftrightarrow> i < length (sy_pending s)"
| "sys_enabled msgs (Watch_arrival now) s \<longleftrightarrow> sy_inbox s \<noteq> []"
| "sys_enabled msgs (Check_done i resp) s \<longleftrightarrow> i < length (sy_checking s) \<and>
     (case resp of Inr statuses \<Rightarrow> length statuses = length (sy_checking s ! i) | Inl err \<Rightarrow> True)"
| "sys_enabled msgs (Install_leaders gossip) s \<longleftrightarrow> sy_leader_msgs s \<noteq> []"
| "sys_enabled msgs (Metrics_task bound) s \<longleftrightarrow> \<not> sy_metrics_up s"
| "sys_enabled msgs (Metrics_request meth path) s \<longleftrightarrow> sy_metrics_up s"
| "sys_enabled msgs (Rehash m) s \<longleftrightarrow> hm_same (tx_consumers (sv_balancer (sy_server s))) m"
| "sys_enabled msgs (Network w) s \<longleftrightarrow> msgs w = msgs (sv_runtime (sy_server s))"
| "sys_enabled msgs _ s \<longleftrightarrow> True"

text \<open>
  The gRPC server is the last thing \<^verbatim>\<open>main\<close> waits for: when it ends with an error, or stops, \<^verbatim>\<open>main\<close>
  returns, and the process ends with all its tasks.
\<close>

fun sys_quits :: "('g, 'w, 'hv, 'p, 'a, 'e) sys_event \<Rightarrow> nat option" where
  "sys_quits (Grpc_server_ends (Done (Inl err))) = Some 1"
| "sys_quits (Grpc_server_ends (Done (Inr u))) = Some 0"
| "sys_quits _ = None"

inductive sys_step ::
  "('g, 'w, 'key, 'hv, 'bytes, 's, 'p, 'a) sys_env \<Rightarrow> ('w \<Rightarrow> (chan \<times> response_envelope) list) \<Rightarrow>
   ('w, 'key, 's) system process \<Rightarrow> ('g, 'w, 'hv, 'p, 'a, 'e) sys_event \<Rightarrow> ('w, 'key, 's) system process \<Rightarrow> bool"
  for ev msgs where
  sys_event: "sys_enabled msgs e s \<Longrightarrow> sys_quits e = None \<Longrightarrow> sys_step ev msgs (Alive s) e (setup_panic_hook (sys_exec ev e s))"
| sys_quit: "sys_enabled msgs e s \<Longrightarrow> sys_quits e = Some code \<Longrightarrow> sys_step ev msgs (Alive s) e (Exited code)"

inductive_cases sys_stepE: "sys_step ev msgs p e p'"

lemma unsubscribed_signal_case [simp]:
  "(case e of Unsubscribed_signal \<Rightarrow> P | _ \<Rightarrow> True) \<longleftrightarrow> (e = Unsubscribed_signal \<longrightarrow> P)"
  by (cases e) simp_all

interpretation sys_machine: panicking "sys_enabled msgs" "sys_exec ev" sys_quits "sys_step ev msgs" for msgs ev
proof
  fix p e p'
  show "sys_step ev msgs p e p' \<longleftrightarrow> (\<exists>s. p = Alive s \<and> sys_enabled msgs e s \<and>
      p' = (case sys_quits e of Some code \<Rightarrow> Exited code | None \<Rightarrow> exit_on_panic (sys_exec ev e s)))"
    by (cases "sys_quits e") (auto simp: setup_panic_hook_def elim!: sys_stepE
      intro: sys_event [unfolded setup_panic_hook_def] sys_quit)
qed

abbreviation sys_trace ::
  "('g, 'w, 'key, 'hv, 'bytes, 's, 'p, 'a) sys_env \<Rightarrow> ('w \<Rightarrow> (chan \<times> response_envelope) list) \<Rightarrow>
   ('g, 'w, 'hv, 'p, 'a, 'e) sys_event list \<Rightarrow> ('w, 'key, 's) system \<Rightarrow> ('w, 'key, 's) system option" where
  "sys_trace ev msgs \<equiv> exec_trace (\<lambda>e s. sys_quits e = None \<and> sys_enabled msgs e s) (sys_exec ev)"

lemma metrics_task_Done [simp]:
  "metrics_task ev bound s = Done s' \<longleftrightarrow> bound \<and>
     s' = s\<lparr>sy_server := (sy_server s)\<lparr>sv_metrics := sv_metrics (sy_server s) @ init_metrics\<rparr>, sy_metrics_up := True\<rparr>"
  by (auto simp: metrics_task_def metrics_spawn_def Let_def)

lemma metrics_task_Panic: "metrics_task ev bound s = Panic err \<Longrightarrow> \<not> bound"
  by (auto simp: metrics_task_def metrics_spawn_def Let_def)

lemma metrics_request_Done: "metrics_request ev meth path s = Done s' \<Longrightarrow> s' = s"
  by (simp add: metrics_request_def)

section \<open>A concrete run\<close>

text \<open>
  For the witnesses: the exporter starts, a client connects, the leaders arrive, a transaction is
  sent, and its check is done twelve seconds later, without an answer from the chain.
\<close>

definition env_demo :: "(unit, (chan \<times> response_envelope) list, unit, string, string, string, string, string) sys_env" where
  "env_demo =
     \<lparr>ev_gen_range = gen_last, ev_send = channel_send (\<lambda>ch. True), ev_verify = verify_demo, ev_to_str = Some,
      ev_base64 = b64_demo, ev_decode = dec_demo, ev_sig_string = id, ev_pubkey = Some, ev_addr_string = id,
      ev_gauge = gauge_last, ev_encode = (\<lambda>ops. Some []), ev_utf8 = (\<lambda>buf. Some ''''), ev_lamports = 1000, ev_overrides = []\<rparr>"

definition sys_demo :: "((chan \<times> response_envelope) list, unit, string) system" where
  "sys_demo = sys_init 0 [] \<lparr>rl_public_key = None, rl_partners = [], rl_req_id_gen = 0\<rparr> (Inr ())"

type_synonym demo_event = "(unit, (chan \<times> response_envelope) list, string, string, string, unit) sys_event"

definition connect_demo :: "demo_event list" where
  "connect_demo = [Metrics_task True, Connect (Some ''v'') (Some ''ip'') ''t'' 0 0]"

definition leaders_demo :: "demo_event list" where
  "leaders_demo =
     (let ids = [''a'', ''b'', ''c''] in
     [Refresh_nodes (Inr (map (\<lambda>i. \<lparr>cn_pubkey = i, cn_tpu_quic = Some (i @ '':8009'')\<rparr>) ids))
        (Inr (map (\<lambda>i. \<lparr>vr_identity = i, vr_vote_account = i, vr_dc_full_city = ''x''\<rparr>) ids)) (Inr []),
      Leader_stream (Refresh_hint (Inr (Some [(''a'', [0]), (''b'', [4]), (''c'', [8])]))),
      Leader_stream (Slot_info 0), Install_leaders (\<lambda>p. None)])"

definition call_demo :: "demo_event list" where
  "call_demo =
     [Http_request False None [Some (SendTransaction ''tx'' (Some \<lparr>cf_skip_preflight = Some True\<rparr>))], Run_call 0 () 1 2000000 3000000]"

definition check_demo :: "demo_event list" where
  "check_demo = [Watch_arrival 0, Watch_tick (\<lambda>n. 12 * 10 ^ 9), Check_done 0 (Inr [None])]"

lemma demo_trace:
  "case sys_trace env_demo id (connect_demo @ leaders_demo @ call_demo @ check_demo) sys_demo of
     Some s \<Rightarrow> map sr_signature (sy_checked s) = [''tx''] \<and> length (sv_sessions (sy_server s)) = 1 \<and>
       map fst (tx_consumers (sv_balancer (sy_server s))) = [''v''] \<and> length (sv_runtime (sy_server s)) = 3
   | None \<Rightarrow> False"
  by code_simp

lemma demo_run:
  obtains s where "run (sys_step env_demo id) (Alive sys_demo) (connect_demo @ leaders_demo @ call_demo @ check_demo) (Alive s)"
    "map sr_signature (sy_checked s) = [''tx'']" "length (sv_sessions (sy_server s)) = 1"
    "map fst (tx_consumers (sv_balancer (sy_server s))) = [''v'']" "length (sv_runtime (sy_server s)) = 3"
  using demo_trace sys_machine.trace_run [of id env_demo "connect_demo @ leaders_demo @ call_demo @ check_demo" sys_demo]
  by (auto split: option.splits)

end
