(* ===== verification/Server_Accounts.thy ===== *)
theory Server_Accounts
  imports Server_System
begin

text \<open>
  Invariants of the whole server, part one: the client registry, and the accounts of the sessions on
  their way from the request to the check of their transaction. Each invariant is an interpretation of
  \<open>preserved\<close> on the step relation of the server.
\<close>

section \<open>What a call does\<close>

text \<open>The payload and the options of a send call; other calls have none.\<close>

fun send_payload :: "rpc_method option \<Rightarrow> (string \<times> send_priority_transaction_config option) option" where
  "send_payload (Some (SendPriorityTransaction data config)) = Some (data, config)"
| "send_payload (Some (SendTransaction data config)) = Some (data, config)"
| "send_payload (Some GetHealth) = None"
| "send_payload None = None"

lemma get_io_handler_send:
  "send_payload meth = Some (data, config) \<Longrightarrow>
     get_io_handler gen_range send b64 dec str get created ctime rtime rng meta meth ops b w =
     send_priority_transaction gen_range send b64 dec str created ctime rtime rng meta data config b w"
  by (cases meth rule: send_payload.cases) (auto simp: get_io_handler_def send_transaction_def)

lemma send_ops:
  "send_priority_transaction gen_range send b64 dec str created ctime rtime rng meta data config b w = Done (r, ops, b', w', out) \<Longrightarrow>
     ops = [] \<or> (\<exists>a m data. ops = accept_metrics a m data)"
  by (cases ctime; cases rtime)
     (auto simp: send_priority_transaction_def Let_def forward_result simp del: outcome_bind_Done_iff split: send_splits)

lemma get_io_handler_cases:
  assumes "get_io_handler gen_range send b64 dec str get created ctime rtime rng meta meth ops b w = Done (r, ops', b', w', out)"
  obtains (quiet) "b' = b" "w' = w" "out = None" "ops' = [] \<or> (\<exists>a m data. ops' = accept_metrics a m data)"
  | (forwarded) a sg data config session ct rt where "send_payload meth = Some (data, config)" "ctime = Done ct" "rtime = Done rt" "rp_auth meta = Inr a" "rp_mode meta = FORWARD" "first_signature b64 dec data = Some sg"
      "publish gen_range send rng (new_session meta a created ct rt sg) (str sg) data b w = Done (Inr (), b', w', out)"
      "out = Some session" "ops' = accept_metrics a FORWARD data"
proof -
  have send: thesis if payload: "send_payload meth = Some (data, config)"
    and call: "send_priority_transaction gen_range send b64 dec str created ctime rtime rng meta data config b w =
      Done (r, ops', b', w', out)" for data config
  proof (cases r)
    case (Inl err)
    from send_Inl [OF call [unfolded Inl]] send_ops [OF call] quiet show ?thesis by simp
  next
    case (Inr s)
    from call [unfolded Inr] show ?thesis
    proof (cases rule: send_Inr)
      case (1 a sg ct)
      show ?thesis
      proof (cases "rp_mode meta")
        case BLACKHOLE
        with 1(7) send_ops [OF call] quiet show ?thesis by simp
      next
        case FORWARD
        with 1(7) obtain rt where rt: "rtime = Done rt"
          and pub: "publish gen_range send rng (new_session meta a created ct rt sg) (str sg) data b w = Done (Inr (), b', w', out)"
          by auto
        from publish_session [OF pub] obtain session where "out = Some session" by auto
        with rt pub payload 1 FORWARD forwarded show ?thesis by simp
      qed
    qed
  qed
  show thesis
  proof (cases "send_payload meth")
    case None
    with assms quiet show ?thesis by (cases meth rule: send_payload.cases) (auto simp: get_io_handler_def)
  next
    case (Some dc)
    obtain data config where payload: "send_payload meth = Some (data, config)" using Some by (cases dc) simp
    from send [OF payload] assms show ?thesis unfolding get_io_handler_send [OF payload] .
  qed
qed

lemma run_call_cases:
  assumes "run_call ev i rng created now1 now2 s = Done s'"
  obtains (quiet) ops where "ops = [] \<or> (\<exists>a m data. ops = accept_metrics a m data)"
      "s' = s\<lparr>sy_pending := take i (sy_pending s) @ drop (Suc i) (sy_pending s),
              sy_server := (sy_server s)\<lparr>sv_metrics := sv_metrics (sy_server s) @ ops\<rparr>\<rparr>"
  | (forwarded) meta a sg data config session b' w' ct rt where "send_payload (snd (sy_pending s ! i)) = Some (data, config)" "time_ms now1 = Done ct" "time_ms now2 = Done rt" "meta = fst (sy_pending s ! i)" "rp_auth meta = Inr a" "rp_mode meta = FORWARD"
      "first_signature (ev_base64 ev) (ev_decode ev) data = Some sg"
      "publish (ev_gen_range ev) (ev_send ev) rng (new_session meta a created ct rt sg) (ev_sig_string ev sg) data
         (sv_balancer (sy_server s)) (sv_runtime (sy_server s)) = Done (Inr (), b', w', Some session)"
      "s' = s\<lparr>sy_pending := take i (sy_pending s) @ drop (Suc i) (sy_pending s),
              sy_server := (sy_server s)\<lparr>sv_balancer := b', sv_runtime := w',
                sv_metrics := sv_metrics (sy_server s) @ accept_metrics a FORWARD data\<rparr>,
              sy_inbox := sy_inbox s @ [session], sy_handed := sy_handed s @ [session]\<rparr>"
proof -
  let ?sv = "sy_server s" and ?meta = "fst (sy_pending s ! i)"
  from assms obtain r ops b' w' out where
    call: "get_io_handler (ev_gen_range ev) (ev_send ev) (ev_base64 ev) (ev_decode ev) (ev_sig_string ev) (ev_gauge ev)
        created (time_ms now1) (time_ms now2) rng ?meta (snd (sy_pending s ! i)) (sv_metrics ?sv) (sv_balancer ?sv) (sv_runtime ?sv) = Done (r, ops, b', w', out)"
    and s': "s' = s\<lparr>sy_pending := take i (sy_pending s) @ drop (Suc i) (sy_pending s),
        sy_server := ?sv\<lparr>sv_balancer := b', sv_runtime := w', sv_metrics := sv_metrics ?sv @ ops\<rparr>,
        sy_inbox := sy_inbox s @ (case out of Some session \<Rightarrow> [session] | None \<Rightarrow> []),
        sy_handed := sy_handed s @ (case out of Some session \<Rightarrow> [session] | None \<Rightarrow> [])\<rparr>"
    by (auto simp: run_call_def Let_def case_prod_beta)
  from call show thesis
  proof (cases rule: get_io_handler_cases)
    case quiet
    with s' that(1) show ?thesis by simp
  next
    case (forwarded a sg data config session ct rt)
    with s' that(2) [of data config ct rt ?meta a sg b' w' session] show ?thesis by simp
  qed
qed

section \<open>The registry\<close>

lemma sv_inv_frame:
  assumes "sv_inv sv" and "sv_balancer sv' = sv_balancer sv" and "sv_sessions sv' = sv_sessions sv"
    and "sv_notified sv' = sv_notified sv"
  shows "sv_inv sv'"
  using assms unfolding sv_inv_def by simp

lemma sv_inv_publish:
  assumes "sv_inv sv" and "publish gen_range send rng session signature data (sv_balancer sv) w = Done (r, b', w', out)"
    and "sv_balancer sv' = b'" and "sv_sessions sv' = sv_sessions sv" and "sv_notified sv' = sv_notified sv"
  shows "sv_inv sv'"
  by (rule sv_inv_same [OF assms(1)])
     (use assms bal_inv_publish [OF assms(2) sv_invD(1) [OF assms(1)]] same_clients_publish [OF assms(2)] in auto)

lemma sv_inv_stakes: "sv_inv sv \<Longrightarrow> sv_inv (sv\<lparr>sv_balancer := update_stake_weights weights (sv_balancer sv)\<rparr>)"
  by (rule sv_inv_same) (auto simp: same_clients_stakes mtx_inv dest: sv_invD(1))

lemma sv_inv_rehash:
  "sv_inv sv \<Longrightarrow> hm_same (tx_consumers (sv_balancer sv)) m \<Longrightarrow>
     sv_inv (sv\<lparr>sv_balancer := (sv_balancer sv)\<lparr>tx_consumers := m\<rparr>\<rparr>)"
  by (rule sv_inv_same) (auto simp: mtx_inv dest: sv_invD(1) intro: same_clients_rehash bal_invD(1))

lemma sv_inv_reset:
  assumes "sv_inv sv" and "i < length (sv_sessions sv)" and "se_phase (sv_sessions sv ! i) = Resetting"
  shows "sv_inv (session_reset i sv)"
  by (rule sv_inv_same [OF assms(1)])
     (use assms(2,3) sv_invD(1) [OF assms(1)] in
       \<open>auto simp: session_reset_def Let_def nth_list_update intro: same_tasks_update same_clients_refl\<close>)

lemma with_updater_cases:
  assumes "with_updater tq pk e s = Done s'"
  obtains (nodes) resp where "e = Nodes_hint resp"
      "s' = s\<lparr>sy_info_map := (case resp of Inr m \<Rightarrow> m | Inl err \<Rightarrow> sy_info_map s)\<rparr>"
  | (leaders) plain info where "e = New_leaders plain"
      "\<forall>i \<in> set plain. \<not> bad_key pk (sy_info_map s) i"
      "info = hm_collect (List.map_filter (\<lambda>i. map_option (Pair i) (leader_contact pk tq (sy_info_map s) i)) plain)"
      "s' = s\<lparr>sy_server := perform (snd (flush_unsubscribes (set_leaders (hm_values info) info (sv_balancer (sy_server s)))))
         ((sy_server s)\<lparr>sv_balancer := fst (flush_unsubscribes (set_leaders (hm_values info) info (sv_balancer (sy_server s))))\<rparr>)\<rparr>"
proof (cases e)
  case (Nodes_hint resp)
  with assms nodes show ?thesis
    by (cases resp) (auto simp: with_updater_def)
next
  case (New_leaders plain)
  with assms leaders show ?thesis
    by (auto simp: with_updater_def updater_new_leaders Let_def case_prod_beta simp del: updater_step.simps split: if_splits)
qed

lemma install_cases:
  assumes "sys_exec ev (Install_leaders gossip) s = Done s'" and "sy_leader_msgs s \<noteq> []"
  obtains plain rest info where "sy_leader_msgs s = plain # rest" "\<forall>i \<in> set plain. \<not> bad_key (ev_pubkey ev) (sy_info_map s) i"
    "info = hm_collect (List.map_filter (\<lambda>i. map_option (Pair i)
       (leader_contact (ev_pubkey ev) (\<lambda>p. map_option (ev_addr_string ev) (gossip p)) (sy_info_map s) i)) plain)"
    "s' = s\<lparr>sy_leader_msgs := rest,
       sy_server := perform (snd (flush_unsubscribes (set_leaders (hm_values info) info (sv_balancer (sy_server s)))))
         ((sy_server s)\<lparr>sv_balancer := fst (flush_unsubscribes (set_leaders (hm_values info) info (sv_balancer (sy_server s))))\<rparr>)\<rparr>"
proof -
  from assms(2) obtain plain rest where msgs: "sy_leader_msgs s = plain # rest" by (cases "sy_leader_msgs s") auto
  with assms(1) have "with_updater (\<lambda>p. map_option (ev_addr_string ev) (gossip p)) (ev_pubkey ev) (New_leaders plain)
      (s\<lparr>sy_leader_msgs := rest\<rparr>) = Done s'" by simp
  then show thesis
  proof (cases rule: with_updater_cases)
    case (leaders plain' info)
    with msgs that [of plain rest info] show ?thesis by simp
  qed simp
qed

lemma sv_inv_install:
  "sv_inv sv \<Longrightarrow> sv_inv (perform (snd (flush_unsubscribes (set_leaders tpus ls (sv_balancer sv))))
     (sv\<lparr>sv_balancer := fst (flush_unsubscribes (set_leaders tpus ls (sv_balancer sv)))\<rparr>))"
  by (rule sv_inv_flush) simp_all

lemma leader_stream_frame:
  assumes "leader_stream e s = Done s'"
  shows "\<exists>st ms. s' = s\<lparr>sy_stream := st, sy_leader_msgs := ms\<rparr>"
proof (cases "sy_stream s")
  case None
  with assms have "s' = s\<lparr>sy_stream := sy_stream s, sy_leader_msgs := sy_leader_msgs s\<rparr>" by (simp add: leader_stream_def)
  then show ?thesis by blast
next
  case (Some st)
  with assms obtain r where "leaders_step e st = Done r" by (auto simp: leader_stream_def)
  with Some assms show ?thesis
    by (cases r) (auto simp: leader_stream_def, metis system.surjective system.update_convs(7,8))
qed

lemma stake_round_cases:
  "stake_round l overrides er vr t = t \<or>
   (\<exists>weights e. stake_round l overrides er vr t =
      t\<lparr>st_balancer := update_stake_weights weights (st_balancer t), st_last_epoch := e\<rparr>)"
  by (auto simp: stake_round_def Let_def split: sum.split)

lemma stake_task_round_cases:
  obtains (same) "sy_server (stake_task_round ev er vr s) = sy_server s"
  | (new) weights where "sy_server (stake_task_round ev er vr s) =
      (sy_server s)\<lparr>sv_balancer := update_stake_weights weights (sv_balancer (sy_server s))\<rparr>"
proof -
  let ?t = "\<lparr>st_last_epoch = sy_last_epoch s, st_balancer = sv_balancer (sy_server s)\<rparr>"
  from stake_round_cases [of "ev_lamports ev" "ev_overrides ev" er vr ?t] same new show thesis
    by (auto simp: stake_task_round_def Let_def)
qed

lemma sys_registry_exec:
  assumes inv: "sv_inv (sy_server s)" and en: "sys_enabled msgs e s" and ex: "sys_exec ev e s = Done s'"
  shows "sv_inv (sy_server s')"
proof (cases e)
  case (Connect ident_opt addr tok now1 now2)
  with inv en ex show ?thesis by (auto intro: sv_inv_connect)
next
  case (Session i ev')
  with inv en ex show ?thesis by (auto simp: session_event_step_def intro: sv_inv_event)
next
  case (Session_unsubscribe i)
  with inv en ex show ?thesis by (auto intro: sv_inv_unsubscribe)
next
  case (Session_reset i)
  with inv en ex show ?thesis by (auto intro: sv_inv_reset)
next
  case (Run_call i rng created now1 now2)
  with ex have "run_call ev i rng created now1 now2 s = Done s'" by simp
  then show ?thesis
    by (cases rule: run_call_cases) (use inv in \<open>auto intro: sv_inv_frame sv_inv_publish\<close>)
next
  case (Refresh_nodes nodes validators jito)
  with ex have "with_updater (\<lambda>_. None) (ev_pubkey ev) (Nodes_hint (get_leader_info (ev_addr_string ev) nodes validators jito)) s = Done s'"
    by simp
  then show ?thesis by (rule with_updater_cases) (use inv in auto)
next
  case (Install_leaders gossip)
  with ex have "sys_exec ev (Install_leaders gossip) s = Done s'" by simp
  moreover have "sy_leader_msgs s \<noteq> []" using en Install_leaders by simp
  ultimately show ?thesis by (cases rule: install_cases) (use inv sv_inv_install in auto)
next
  case (Stake_task er vr)
  with ex inv show ?thesis by (auto intro: stake_task_round_cases [of ev er vr s] simp: sv_inv_stakes)
next
  case (Rehash m)
  with inv en ex show ?thesis by (auto intro: sv_inv_rehash)
qed (use inv ex in \<open>auto simp: http_request_def watch_arrival_def watch_tick_def check_done_def Let_def case_prod_beta
  intro: sv_inv_frame dest!: leader_stream_frame metrics_request_Done split: list.splits\<close>)

interpretation sys_registry: preserved "sys_step ev msgs" "on_alive (\<lambda>s. sv_inv (sy_server s))" for ev msgs
  by (rule sys_machine.preservedI) (rule sys_registry_exec)

lemma sys_init_registry: "sv_inv (sy_server (sys_init inbox w l sub))"
  by (rule sv_inv_frame [OF sv_inv_init [of inbox w]]) (simp_all add: sys_init_def)

section \<open>Metric operations of the events\<close>

lemma incs_of_other [simp]:
  "incs_of m (Gauge_set m' ls v # ops) = incs_of m ops"
  "incs_of m (Hist_observe m' ls x # ops) = incs_of m ops" "incs_of m (Remove_labels m' ls # ops) = incs_of m ops"
  by (simp_all add: incs_of_def)

lemma incs_of_map_set [simp]: "incs_of m (map (\<lambda>x. Gauge_set m' (f x) (g x)) xs) = 0"
  by (induction xs) simp_all

lemma incs_of_recalc [simp]: "incs_of m (metric_ops (snd (recalc_total_connected_stake b))) = 0"
  by (simp add: recalc_total_connected_stake_def)

lemma incs_of_subscribe [simp]: "incs_of m (metric_ops (snd (subscribe ident tok tx tu b))) = 0"
  by (simp add: subscribe_def Let_def case_prod_beta split: option.split)

lemma incs_of_unsubscribe [simp]: "incs_of m (metric_ops (snd (unsubscribe ident tok b))) = 0"
  by (simp add: unsubscribe_def Let_def case_prod_beta split: option.split)

lemma incs_of_unsubscribe_all [simp]: "incs_of m (metric_ops (snd (unsubscribe_all es b))) = 0"
proof (induction es arbitrary: b)
  case (Cons e es)
  then show ?case by (cases e) (simp add: Let_def case_prod_beta)
qed simp

lemma incs_of_flush [simp]: "incs_of m (metric_ops (snd (flush_unsubscribes b))) = 0"
  by (simp add: flush_unsubscribes_def Let_def)

lemma handle_client_request_incs:
  "handle_client_request elapsed msg ident last_ping b = Done (b', ops) \<Longrightarrow> incs_of m ops = 0"
  by (cases msg) (auto simp: handle_client_request_def handle_client_metrics_def handle_client_pong_def split: option.split)

lemma session_select_incs:
  assumes "session_select send e t b w = Done (t', b', w', ops)"
  shows "incs_of m ops = 0"
proof (cases e)
  case (Client_message msg elapsed)
  with assms show ?thesis by (cases msg) (auto dest: handle_client_request_incs)
qed (use assms in \<open>auto simp: Let_def case_prod_beta\<close>)

lemma tx_stream_incs:
  "tx_stream ident_opt addr tok now1 now2 sv = Done (r, sv') \<Longrightarrow> incs_of m (sv_metrics sv') = incs_of m (sv_metrics sv)"
  by (auto simp: tx_stream_def Let_def case_prod_beta split: option.splits)

lemma checker_counts:
  assumes "case resp of Inr statuses \<Rightarrow> length statuses = length records | Inl err \<Rightarrow> True"
  shows "incs_of CHAIN_TX_FINALIZED (signature_checker (\<lambda>_. resp) records) +
     incs_of CHAIN_TX_TIMEOUT (signature_checker (\<lambda>_. resp) records) = length records"
proof (cases resp)
  case (Inl err)
  then show ?thesis by (simp add: signature_checker_def)
next
  case (Inr sts)
  with assms signature_checker_incs(1,2) [of "\<lambda>_. resp" records sts] sum_length_filter_compl [of "\<lambda>st. st \<noteq> None" sts]
  show ?thesis by simp
qed

section \<open>The accounts of the sessions\<close>

text \<open>The watcher stamps a session with its arrival; everything else of it stays as it was handed over.\<close>

definition strip :: "'s signature_record \<Rightarrow> 's signature_record" where
  "strip rec = rec\<lparr>sr_created_at := 0\<rparr>"

lemma strip_fun: "strip = sr_created_at_update (\<lambda>_. 0)"
  by (simp add: strip_def fun_eq_iff)

lemma strip_stamp [simp]: "strip (rec\<lparr>sr_created_at := now\<rparr>) = strip rec"
  by (simp add: strip_def)

definition accounts :: "('w, 'key, 's) system \<Rightarrow> bool" where
  "accounts s \<longleftrightarrow>
     map strip (sy_handed s) = map strip (sy_bundled s @ sy_queue s @ sy_inbox s) \<and>
     mset (sy_bundled s) = mset (sy_checked s) + mset (concat (sy_checking s)) \<and>
     incs_of CHAIN_TX_FINALIZED (sv_metrics (sy_server s)) + incs_of CHAIN_TX_TIMEOUT (sv_metrics (sy_server s)) =
       length (sy_checked s) \<and>
     length (sy_handed s) \<le> incs_of SERVER_RPC_TX_ACCEPTED (sv_metrics (sy_server s))"

lemma accounts_frame:
  assumes "accounts s" and "sy_handed s' = sy_handed s" and "sy_bundled s' = sy_bundled s" and "sy_queue s' = sy_queue s"
    and "sy_inbox s' = sy_inbox s" and "sy_checked s' = sy_checked s" and "sy_checking s' = sy_checking s"
    and "\<And>m. m \<in> {CHAIN_TX_FINALIZED, CHAIN_TX_TIMEOUT} \<Longrightarrow> incs_of m (sv_metrics (sy_server s')) = incs_of m (sv_metrics (sy_server s))"
    and "incs_of SERVER_RPC_TX_ACCEPTED (sv_metrics (sy_server s)) \<le> incs_of SERVER_RPC_TX_ACCEPTED (sv_metrics (sy_server s'))"
  shows "accounts s'"
  using assms unfolding accounts_def by simp

lemma accounts_tick: "accounts s \<Longrightarrow> accounts (watch_tick clock s)"
proof -
  assume acc: "accounts s"
  obtain bundles q c where loop: "bundle_loop clock 0 (sy_queue s) = (bundles, q, c)" by (metis prod_cases3)
  from bundle_loop_partition [OF this] have "sy_queue s = concat bundles @ q" by simp
  with acc loop show ?thesis
    by (simp add: accounts_def watch_tick_def add.assoc)
qed

lemma accounts_check:
  assumes acc: "accounts s" and i: "i < length (sy_checking s)"
    and resp: "case resp of Inr statuses \<Rightarrow> length statuses = length (sy_checking s ! i) | Inl err \<Rightarrow> True"
  shows "accounts (check_done i resp s)"
proof -
  let ?rest = "take i (sy_checking s) @ drop (Suc i) (sy_checking s)"
  have "concat (sy_checking s) = concat (take i (sy_checking s) @ sy_checking s ! i # drop (Suc i) (sy_checking s))"
    by (rule arg_cong [OF id_take_nth_drop [OF i]])
  then have "mset (concat (sy_checking s)) = mset (sy_checking s ! i) + mset (concat ?rest)"
    by (simp del: append_take_drop_id)
  moreover note checker_counts [OF resp]
  ultimately show ?thesis
    using acc by (simp add: accounts_def check_done_def Let_def)
qed

lemma accounts_call:
  assumes acc: "accounts s" and call: "run_call ev i rng created now1 now2 s = Done s'"
  shows "accounts s'"
  using call
proof (cases rule: run_call_cases)
  case (quiet ops)
  then show ?thesis
    by (intro accounts_frame [OF acc]) (auto simp: accept_metrics_def)
next
  case (forwarded meta a sg data config session b' w' ct rt)
  with acc show ?thesis by (simp add: accounts_def accept_metrics_def)
qed

lemma accounts_exec:
  assumes acc: "accounts s" and en: "sys_enabled msgs e s" and ex: "sys_exec ev e s = Done s'"
  shows "accounts s'"
proof (cases e)
  case (Connect ident_opt addr tok now1 now2)
  with ex show ?thesis by (auto intro!: accounts_frame [OF acc] simp: tx_stream_incs)
next
  case (Session i ev')
  with ex show ?thesis by (auto intro!: accounts_frame [OF acc] simp: session_event_step_def session_select_incs)
next
  case (Run_call i rng created now1 now2)
  with ex accounts_call [OF acc] show ?thesis by simp
next
  case (Watch_arrival now)
  with ex en acc show ?thesis by (cases "sy_inbox s") (auto simp: accounts_def watch_arrival_def)
next
  case (Watch_tick clock)
  with ex accounts_tick [OF acc] show ?thesis by auto
next
  case (Check_done i resp)
  with ex en accounts_check [OF acc] show ?thesis by auto
next
  case (Leader_stream ev')
  with ex show ?thesis by (auto dest!: leader_stream_frame metrics_request_Done intro!: accounts_frame [OF acc])
next
  case (Refresh_nodes nodes validators jito)
  with ex have "with_updater (\<lambda>_. None) (ev_pubkey ev) (Nodes_hint (get_leader_info (ev_addr_string ev) nodes validators jito)) s = Done s'"
    by simp
  then show ?thesis by (rule with_updater_cases) (auto intro!: accounts_frame [OF acc])
next
  case (Install_leaders gossip)
  with ex en have "sys_exec ev (Install_leaders gossip) s = Done s'" "sy_leader_msgs s \<noteq> []" by simp_all
  then show ?thesis by (cases rule: install_cases) (auto intro!: accounts_frame [OF acc])
next
  case (Stake_task er vr)
  have "sv_metrics (sy_server (stake_task_round ev er vr s)) = sv_metrics (sy_server s)"
    by (rule stake_task_round_cases [of ev er vr s]) simp_all
  with ex Stake_task show ?thesis by (auto intro!: accounts_frame [OF acc]) (simp_all add: stake_task_round_def Let_def)
qed (use ex in \<open>auto simp: http_request_def session_unsubscribe_def session_reset_def reset_client_metrics_def init_metrics_def
  Let_def case_prod_beta intro!: accounts_frame [OF acc] dest!: metrics_request_Done\<close>)

interpretation sys_accounts: preserved "sys_step ev msgs" "on_alive accounts" for ev msgs
  by (rule sys_machine.preservedI) (rule accounts_exec)

lemma sys_init_accounts: "accounts (sys_init inbox w l sub)"
  by (simp add: accounts_def sys_init_def server_init_def)

section \<open>The health gauge\<close>

lemma consumers_le_sessions:
  assumes "sv_inv sv"
  shows "length (tx_consumers (sv_balancer sv)) \<le> length (sv_sessions sv)"
proof -
  let ?cs = "tx_consumers (sv_balancer sv)"
  have "fst ` set ?cs \<subseteq> se_identity ` set (sv_sessions sv)"
  proof
    fix k assume "k \<in> fst ` set ?cs"
    then obtain c where "(k, c) \<in> set ?cs" by auto
    from sv_invD(4) [OF assms this] obtain i where "backed_by (sv_sessions sv) k c i" ..
    then show "k \<in> se_identity ` set (sv_sessions sv)" by (auto simp: backed_by_def)
  qed
  then have "card (fst ` set ?cs) \<le> length (sv_sessions sv)"
    by (meson card_image_le card_length card_mono finite_imageI finite_set order_trans)
  moreover have "card (fst ` set ?cs) = length ?cs"
    using bal_invD(1) [OF sv_invD(1) [OF assms]] unfolding hm_ok_def by (metis distinct_card length_map list.set_map)
  ultimately show ?thesis by simp
qed

lemma gauge_ok_skip:
  "gauge_law get \<Longrightarrow> gauge_ok get ops b \<Longrightarrow> \<forall>op \<in> set ops'. op_metric op \<noteq> SERVER_TOTAL_CONNECTED_TX_CONSUMERS \<Longrightarrow>
     length (tx_consumers b') = length (tx_consumers b) \<Longrightarrow> gauge_ok get (ops @ ops') b'"
  by (simp add: gauge_ok_def gauge_law_skip)

lemma gauge_ok_cong: "gauge_ok get ops b \<Longrightarrow> length (tx_consumers b') = length (tx_consumers b) \<Longrightarrow> gauge_ok get ops b'"
  by (simp add: gauge_ok_def)

lemma length_fold_flag [simp]: "length (tx_consumers (fold flag_unsubscribe ids b)) = length (tx_consumers b)"
  by (induction ids arbitrary: b) (simp_all add: flag_unsubscribe_def hm_map_values_def)

lemma length_publish:
  assumes "publish gen_range send rng session signature data b w = Done (r, b', w', out)"
  shows "length (tx_consumers b') = length (tx_consumers b)"
  using assms
proof (cases rule: publish_cases)
  case (2 ps session')
  from publish_loop_spec [OF 2(4)] show ?thesis by auto
qed simp

lemma gauge_ok_flush:
  assumes "gauge_law get" and "length (tx_consumers b) < 2 ^ 63" and "gauge_ok get ops b"
  shows "gauge_ok get (ops @ metric_ops (snd (flush_unsubscribes b))) (fst (flush_unsubscribes b))"
  using gauge_ok_unsubscribe_all [OF assms] by (simp add: flush_unsubscribes_def Let_def)

lemma session_select_metrics:
  assumes "session_select send e t b w = Done (t', b', w', ops)"
  shows "\<forall>op \<in> set ops. op_metric op \<noteq> SERVER_TOTAL_CONNECTED_TX_CONSUMERS"
proof (cases e)
  case (Client_message msg elapsed)
  have "\<forall>op \<in> set ops. op_metric op \<noteq> SERVER_TOTAL_CONNECTED_TX_CONSUMERS"
    if "handle_client_request elapsed m ident p b = Done (b', ops)" for m ident p
    using that by (cases m) (auto simp: handle_client_request_def handle_client_metrics_def handle_client_pong_def
        split: option.splits if_splits)
  with Client_message assms show ?thesis by (cases msg) auto
qed (use assms in \<open>auto simp: Let_def case_prod_beta\<close>)

lemma checker_metrics: "\<forall>op \<in> set (signature_checker get records). op_metric op \<noteq> SERVER_TOTAL_CONNECTED_TX_CONSUMERS"
proof -
  have "op_metric op \<noteq> SERVER_TOTAL_CONNECTED_TX_CONSUMERS" if "op \<in> set (check_record rec st)" for op rec and st :: "'e transaction_status option"
    using that by (cases st) (auto split: option.splits)
  then show ?thesis by (auto simp: signature_checker_def split: sum.split)
qed

definition health_inv :: "(metric_op list \<Rightarrow> metric \<Rightarrow> string list \<Rightarrow> int) \<Rightarrow> ('w, 'key, 's) system \<Rightarrow> bool" where
  "health_inv get s \<longleftrightarrow> sv_inv (sy_server s) \<and> sy_metrics_up s \<and>
     (length (sv_sessions (sy_server s)) < 2 ^ 63 - 1 \<longrightarrow>
        gauge_ok get (sv_metrics (sy_server s)) (sv_balancer (sy_server s)))"

lemma sessions_mono:
  assumes "sys_enabled msgs e s" and "sys_exec ev e s = Done s'"
  shows "length (sv_sessions (sy_server s)) \<le> length (sv_sessions (sy_server s')) \<and> (sy_metrics_up s \<longrightarrow> sy_metrics_up s')"
proof (cases e)
  case (Run_call i rng created now1 now2)
  with assms have "run_call ev i rng created now1 now2 s = Done s'" by simp
  then show ?thesis by (cases rule: run_call_cases) simp_all
next
  case (Refresh_nodes nodes validators jito)
  with assms have "with_updater (\<lambda>_. None) (ev_pubkey ev) (Nodes_hint (get_leader_info (ev_addr_string ev) nodes validators jito)) s = Done s'"
    by simp
  then show ?thesis by (rule with_updater_cases) simp_all
next
  case (Install_leaders gossip)
  with assms have "sys_exec ev (Install_leaders gossip) s = Done s'" "sy_leader_msgs s \<noteq> []" by simp_all
  then show ?thesis by (cases rule: install_cases) simp
next
  case (Stake_task er vr)
  have "sv_sessions (sy_server (stake_task_round ev er vr s)) = sv_sessions (sy_server s)"
    by (rule stake_task_round_cases [of ev er vr s]) simp_all
  with assms Stake_task show ?thesis by (auto simp: stake_task_round_def Let_def)
qed (use assms in \<open>auto simp: tx_stream_def session_event_step_def http_request_def session_unsubscribe_def session_reset_def
  watch_arrival_def watch_tick_def check_done_def Let_def case_prod_beta dest!: leader_stream_frame metrics_request_Done split: option.splits list.splits\<close>)

lemma gauge_exec:
  assumes law: "gauge_law get" and small: "length (tx_consumers (sv_balancer (sy_server s))) < 2 ^ 63 - 1"
    and g: "gauge_ok get (sv_metrics (sy_server s)) (sv_balancer (sy_server s))"
    and up: "sy_metrics_up s" and en: "sys_enabled msgs e s" and ex: "sys_exec ev e s = Done s'"
  shows "gauge_ok get (sv_metrics (sy_server s')) (sv_balancer (sy_server s'))"
proof (cases e)
  case (Connect ident_opt addr tok now1 now2)
  with ex g gauge_ok_subscribe [OF law small] show ?thesis
    by (auto simp: tx_stream_def Let_def case_prod_beta split: option.splits)
next
  case (Session i ev')
  with ex obtain t b w ops where sel: "session_select (ev_send ev) ev' (sv_sessions (sy_server s) ! i)
      (sv_balancer (sy_server s)) (sv_runtime (sy_server s)) = Done (t, b, w, ops)"
    and s': "s' = s\<lparr>sy_server := (sy_server s)\<lparr>sv_sessions := (sv_sessions (sy_server s))[i := t], sv_balancer := b,
      sv_runtime := w, sv_metrics := sv_metrics (sy_server s) @ ops\<rparr>\<rparr>"
    by (auto simp: session_event_step_def)
  have "length (tx_consumers b) = length (tx_consumers (sv_balancer (sy_server s)))"
    using session_select_fields(6) [OF sel] by simp
  then have "gauge_ok get (sv_metrics (sy_server s) @ ops) b"
    by (rule gauge_ok_skip [OF law g session_select_metrics [OF sel]])
  then show ?thesis by (simp add: s')
next
  case (Session_unsubscribe i)
  with ex g gauge_ok_unsubscribe [OF law _ g] small show ?thesis
    by (auto simp: session_unsubscribe_def Let_def case_prod_beta)
next
  case (Run_call i rng created now1 now2)
  with ex have "run_call ev i rng created now1 now2 s = Done s'" by simp
  then show ?thesis
    by (cases rule: run_call_cases)
       (auto simp: accept_metrics_def length_publish intro!: gauge_ok_skip [OF law g])
next
  case (Check_done i resp)
  have "gauge_ok get (sv_metrics (sy_server s) @ signature_checker (\<lambda>_. resp) (sy_checking s ! i)) (sv_balancer (sy_server s))"
    by (rule gauge_ok_skip [OF law g checker_metrics]) (rule refl)
  with ex Check_done show ?thesis by (auto simp: check_done_def Let_def)
next
  case (Refresh_nodes nodes validators jito)
  with ex have "with_updater (\<lambda>_. None) (ev_pubkey ev) (Nodes_hint (get_leader_info (ev_addr_string ev) nodes validators jito)) s = Done s'"
    by simp
  then show ?thesis by (rule with_updater_cases) (use g in simp_all)
next
  case (Install_leaders gossip)
  with ex en have "sys_exec ev (Install_leaders gossip) s = Done s'" "sy_leader_msgs s \<noteq> []" by simp_all
  then show ?thesis
  proof (cases rule: install_cases)
    case (1 plain rest info)
    let ?b = "set_leaders (hm_values info) info (sv_balancer (sy_server s))"
    have "gauge_ok get (sv_metrics (sy_server s)) ?b" by (rule gauge_ok_cong [OF g]) simp
    from gauge_ok_flush [OF law _ this] small 1(4) show ?thesis by simp
  qed
next
  case (Stake_task er vr)
  show ?thesis
    by (rule stake_task_round_cases [of ev er vr s])
       (use ex Stake_task g in \<open>auto intro: gauge_ok_cong simp: update_stake_weights_def hm_map_values_def\<close>)
next
  case (Rehash m)
  with en have "length m = length (tx_consumers (sv_balancer (sy_server s)))" by (auto simp: hm_same_def dest: mset_eq_length)
  with ex Rehash show ?thesis by (auto intro!: gauge_ok_cong [OF g])
next
  case (Grpc_server_ends r)
  with ex g show ?thesis by simp
qed (use ex en up in \<open>auto simp: http_request_def session_reset_def reset_client_metrics_def watch_arrival_def watch_tick_def
  Let_def case_prod_beta intro!: gauge_ok_skip [OF law g] g dest!: leader_stream_frame metrics_request_Done split: list.splits\<close>)

lemma health_exec:
  assumes law: "gauge_law get" and inv: "health_inv get s" and en: "sys_enabled msgs e s" and ex: "sys_exec ev e s = Done s'"
  shows "health_inv get s'"
proof -
  have reg: "sv_inv (sy_server s)" and up: "sy_metrics_up s" using inv by (simp_all add: health_inv_def)
  have "gauge_ok get (sv_metrics (sy_server s')) (sv_balancer (sy_server s'))"
    if "length (sv_sessions (sy_server s')) < 2 ^ 63 - 1"
  proof (rule gauge_exec [OF law _ _ up en ex])
    show "length (tx_consumers (sv_balancer (sy_server s))) < 2 ^ 63 - 1"
      using that sessions_mono [OF en ex] consumers_le_sessions [OF reg] by linarith
    show "gauge_ok get (sv_metrics (sy_server s)) (sv_balancer (sy_server s))"
      using that sessions_mono [OF en ex] inv by (simp add: health_inv_def)
  qed
  with sys_registry_exec [OF reg en ex] sessions_mono [OF en ex] up show ?thesis by (simp add: health_inv_def)
qed

text \<open>The gauge law of the environment's reading function is part of the invariant's statement.\<close>

interpretation sys_health: preserved "sys_step ev msgs" "on_alive (\<lambda>s. gauge_law get \<longrightarrow> health_inv get s)" for ev msgs get
  by (rule sys_machine.preservedI) (blast intro: health_exec)

section \<open>Properties\<close>

text \<open>
  C4. No transaction is lost between the reply and the check. In every run of the server, whatever
  the order in which its tasks act: the sessions handed to the watcher are, in order, those put into
  a bundle, then those in the watcher's queue, then those still in its inbox (the watcher only
  stamps their time of arrival); those put into a bundle are exactly those whose check is done and
  those being checked; every session checked was counted exactly once, as finalized or as timed
  out; and no more sessions were handed over than requests were counted as accepted.
\<close>

theorem sessions_accounted:
  assumes "run (sys_step ev msgs) (Alive (sys_init inbox w l sub)) es (Alive s)"
  shows "map (sr_created_at_update (\<lambda>_. 0)) (sy_handed s) =
       map (sr_created_at_update (\<lambda>_. 0)) (sy_bundled s @ sy_queue s @ sy_inbox s) \<and>
     mset (sy_bundled s) = mset (sy_checked s) + mset (concat (sy_checking s)) \<and>
     incs_of CHAIN_TX_FINALIZED (sv_metrics (sy_server s)) + incs_of CHAIN_TX_TIMEOUT (sv_metrics (sy_server s)) =
       length (sy_checked s) \<and>
     length (sy_handed s) \<le> incs_of SERVER_RPC_TX_ACCEPTED (sv_metrics (sy_server s))"
  using sys_accounts.inv_run [OF assms] sys_init_accounts [of inbox w l sub]
  by (simp add: accounts_def strip_fun)

theorem sessions_accounted_witness:
  "\<exists>s :: ((chan \<times> response_envelope) list, unit, string) system.
     run (sys_step env_demo id) (Alive sys_demo) (connect_demo @ leaders_demo @ call_demo @ check_demo) (Alive s) \<and>
     length (sy_checked s) = 1 \<and>
     incs_of CHAIN_TX_FINALIZED (sv_metrics (sy_server s)) + incs_of CHAIN_TX_TIMEOUT (sv_metrics (sy_server s)) = 1"
proof -
  obtain s where s: "run (sys_step env_demo id) (Alive sys_demo) (connect_demo @ leaders_demo @ call_demo @ check_demo) (Alive s)"
    "map sr_signature (sy_checked s) = [''tx'']" by (rule demo_run)
  from arg_cong [OF s(2), of length] have "length (sy_checked s) = 1" by simp
  with sessions_accounted [OF s(1) [unfolded sys_demo_def]] s(1) show ?thesis by auto
qed

text \<open>
  C19. The health check is exact. In every run in which the metrics task starts, and binds its address, before the first
  client connects, and with fewer than \<open>2 ^ 63 - 1\<close> connections so far, \<^verbatim>\<open>getHealth\<close> succeeds exactly
  when a client is registered, and every registered client belongs to a connection task that has not
  removed it yet.
\<close>

theorem health_check_exact:
  assumes "gauge_law (ev_gauge ev)" and "run (sys_step ev msgs) (Alive (sys_init inbox w l sub)) (Metrics_task True # es) (Alive s)"
    and "length (sv_sessions (sy_server s)) < 2 ^ 63 - 1"
  shows "(get_health (ev_gauge ev) (sv_metrics (sy_server s)) = Inr () \<longleftrightarrow> tx_consumers (sv_balancer (sy_server s)) \<noteq> []) \<and>
     fst ` set (tx_consumers (sv_balancer (sy_server s))) \<subseteq>
       se_identity ` {t \<in> set (sv_sessions (sy_server s)). se_phase t \<le> Cleanup}"
proof
  from assms(2) obtain s1 where "sys_exec ev (Metrics_task True) (sys_init inbox w l sub) = Done s1"
    and rest: "run (sys_step ev msgs) (Alive s1) es (Alive s)"
    unfolding run_Cons by (auto simp: sys_machine.step_iff exit_on_panic_def dest!: metrics_task_Panic split: outcome.splits)
  then have "health_inv (ev_gauge ev) s1"
    using gauge_law_set [OF assms(1), of "[]"] sys_init_registry [of inbox w l sub]
    by (auto simp: health_inv_def gauge_ok_def init_metrics_def sys_init_def server_init_def balancer_new_def intro: sv_inv_frame)
  with sys_health.inv_run [OF rest, of "ev_gauge ev"] have inv: "health_inv (ev_gauge ev) s" using assms(1) by simp
  with assms(3) get_health_iff show "get_health (ev_gauge ev) (sv_metrics (sy_server s)) = Inr () \<longleftrightarrow>
      tx_consumers (sv_balancer (sy_server s)) \<noteq> []"
    unfolding health_inv_def by blast
  show "fst ` set (tx_consumers (sv_balancer (sy_server s))) \<subseteq>
      se_identity ` {t \<in> set (sv_sessions (sy_server s)). se_phase t \<le> Cleanup}"
  proof clarify
    fix k c assume kc: "(k, c) \<in> set (tx_consumers (sv_balancer (sy_server s)))"
    from inv have "sv_inv (sy_server s)" by (simp add: health_inv_def)
    from sv_invD(4) [OF this kc] sv_invD(3) [OF this]
    show "fst (k, c) \<in> se_identity ` {t \<in> set (sv_sessions (sy_server s)). se_phase t \<le> Cleanup}"
      by (auto simp: backed_by_def)
  qed
qed

theorem health_check_exact_witness:
  "\<exists>s :: ((chan \<times> response_envelope) list, unit, string) system.
     run (sys_step env_demo id) (Alive sys_demo) (connect_demo @ leaders_demo @ call_demo @ check_demo) (Alive s) \<and>
     get_health gauge_last (sv_metrics (sy_server s)) = Inr ()"
proof -
  obtain s where s: "run (sys_step env_demo id) (Alive sys_demo) (connect_demo @ leaders_demo @ call_demo @ check_demo) (Alive s)"
    "length (sv_sessions (sy_server s)) = 1" "map fst (tx_consumers (sv_balancer (sy_server s))) = [''v'']" by (rule demo_run)
  from s(3) have "tx_consumers (sv_balancer (sy_server s)) \<noteq> []" by auto
  moreover have "gauge_law (ev_gauge env_demo)" by (simp add: env_demo_def gauge_law_gauge_last)
  moreover have "length (sv_sessions (sy_server s)) < 2 ^ 63 - 1" using s(2) by simp
  ultimately show ?thesis
    using health_check_exact [where ev = env_demo and s = s] s(1) [unfolded sys_demo_def connect_demo_def append_Cons]
    unfolding sys_demo_def connect_demo_def append_Cons by (fastforce simp: env_demo_def)
qed

text \<open>
  The order matters: if a client connects before the task that initialises the gauge first runs, the
  health check fails although the client is registered, until the registry changes again.
\<close>

theorem late_exporter_hides_clients:
  assumes "gauge_law (ev_gauge ev)" and "es = [Connect (Some ident) (Some addr) tok now1 now2, Metrics_task True]"
  shows "\<exists>s. run (sys_step ev msgs) (Alive (sys_init inbox w l sub)) es (Alive s) \<and>
     tx_consumers (sv_balancer (sy_server s)) \<noteq> [] \<and>
     get_health (ev_gauge ev) (sv_metrics (sy_server s)) =
       Inl \<lparr>er_code = ServerError 503, er_message = ''No connected tx consumers''\<rparr>"
proof -
  let ?s = "sys_init inbox w l sub"
  obtain sv1 where sv1: "tx_stream (Some ident) (Some addr) tok now1 now2 (sy_server ?s) = Done (Inr 0, sv1)"
    "tx_consumers (sv_balancer sv1) \<noteq> []"
    by (simp add: tx_stream_def Let_def case_prod_beta sys_init_def server_init_def)
  let ?s2 = "?s\<lparr>sy_server := sv1\<lparr>sv_metrics := sv_metrics sv1 @ init_metrics\<rparr>, sy_metrics_up := True\<rparr>"
  have "sys_trace ev msgs es ?s = Some ?s2"
    using sv1(1) by (simp add: assms(2)) (simp add: sys_init_def server_init_def metrics_task_def metrics_spawn_def)
  from sys_machine.trace_run [OF this] show ?thesis
    using sv1(2) gauge_law_set [OF assms(1), of "sv_metrics sv1" SERVER_TOTAL_CONNECTED_TX_CONSUMERS "[]" 0]
    by (intro exI [of _ ?s2]) (simp add: get_health_def init_metrics_def)
qed

end
