(* ===== verification/Server_Traffic.thy ===== *)
theory Server_Traffic
  imports Server_Accounts
begin

text \<open>
  Invariants of the whole server, part two: the leader data the updater maintains, and what the
  server sends. Every message names a connection that was opened and is either a ping or a
  transaction the server decoded, with printed socket addresses as its TPUs; and the events that can
  end the process are exactly listed.
\<close>

section \<open>Leader data\<close>

definition contact_ok :: "('a \<Rightarrow> string) \<Rightarrow> string \<times> leader_info \<Rightarrow> bool" where
  "contact_ok str e \<longleftrightarrow> li_identity (snd e) = fst e \<and> li_tpu (snd e) \<in> range str"

definition leaders_ok :: "('a \<Rightarrow> string) \<Rightarrow> ('w, 'key, 's) system \<Rightarrow> bool" where
  "leaders_ok str s \<longleftrightarrow>
     (\<forall>e \<in> set (sy_info_map s). contact_ok str e) \<and>
     hm_ok (leaders (sv_balancer (sy_server s))) \<and>
     (\<forall>e \<in> set (leaders (sv_balancer (sy_server s))). contact_ok str e) \<and>
     leader_tpus (sv_balancer (sy_server s)) = hm_values (leaders (sv_balancer (sy_server s)))"

lemma merge_loop_contacts:
  "\<forall>e \<in> set tpus. snd e \<in> range str \<Longrightarrow> hm_ok result \<Longrightarrow> \<forall>e \<in> set result. contact_ok str e \<Longrightarrow>
     \<forall>e \<in> set (merge_loop tpus vrs jito result). contact_ok str e"
proof (induction tpus vrs jito result rule: merge_loop.induct)
  case (2 ident tpu tpus vrs jito result)
  show ?case
  proof (cases "hm_get vrs ident")
    case None
    with 2 show ?thesis by simp
  next
    case (Some rec)
    let ?info = "\<lparr>li_identity = ident, li_tpu = tpu, li_dc_full_city = vr_dc_full_city rec,
      li_is_jito = (vr_vote_account rec \<in> set jito)\<rparr>"
    have "\<forall>e \<in> set (hm_insert ident ?info result). contact_ok str e"
      using "2.prems" by (auto simp: set_hm_insert contact_ok_def)
    with "2.IH"(2) [OF Some refl refl] "2.prems" Some show ?thesis by simp
  qed
qed simp

lemma get_leader_info_contacts:
  assumes "get_leader_info str nodes validators jito = Inr m" and "e \<in> set m"
  shows "contact_ok str e"
proof -
  from assms(1) obtain tpus vrs js where t: "get_tpu_by_identity str nodes = Inr tpus"
    and m: "m = merge_loop tpus vrs js []"
    by (auto simp: get_leader_info_def merge_validator_records_def split: sum.splits)
  from t have "\<forall>e \<in> set tpus. snd e \<in> range str"
    by (auto simp: get_tpu_by_identity_def set_map_filter split: sum.splits dest!: set_hm_collect [THEN subsetD])
  from merge_loop_contacts [OF this, of "[]" vrs js] m assms(2) show ?thesis by simp
qed

lemma leader_contact_ok:
  assumes "\<forall>e \<in> set m. contact_ok str e" and "leader_contact pk (\<lambda>p. map_option str (gossip p)) m i = Some info"
  shows "contact_ok str (i, info)"
proof -
  from assms(2) obtain rec where rec: "hm_get m i = Some rec" and info: "info = rec \<or> (\<exists>a. info = rec\<lparr>li_tpu := str a\<rparr>)"
    by (fastforce simp: leader_contact_def bind_eq_Some_conv split: option.splits)
  from rec have "(i, rec) \<in> set m" by (simp add: hm_get_def map_of_SomeD)
  with assms(1) info show ?thesis by (auto simp: contact_ok_def)
qed

lemma session_select_leaders:
  "session_select send e t b w = Done (t', b', w', ops) \<Longrightarrow> leaders b' = leaders b \<and> leader_tpus b' = leader_tpus b"
  by (cases e) (auto simp: Let_def case_prod_beta handle_client_request_def update_rtt_def
      split: option.splits sum.splits if_splits)

lemma publish_leaders:
  assumes "publish gen_range send rng session signature data b w = Done (r, b', w', out)"
  shows "leaders b' = leaders b \<and> leader_tpus b' = leader_tpus b"
  using assms
proof (cases rule: publish_cases)
  case (2 ps session')
  from publish_loop_spec [OF 2(4)] show ?thesis by auto
qed simp

lemma stakes_leaders [simp]:
  "leaders (update_stake_weights ws b) = leaders b" "leader_tpus (update_stake_weights ws b) = leader_tpus b"
  by (simp_all add: update_stake_weights_def)

text \<open>Only a new leader set changes the leaders, and only the leader stream makes new sets.\<close>

lemma exec_leader_frame:
  assumes en: "sys_enabled msgs e s" and ex: "sys_exec ev e s = Done s'" and other: "\<And>gossip. e \<noteq> Install_leaders gossip"
  shows "leaders (sv_balancer (sy_server s')) = leaders (sv_balancer (sy_server s)) \<and>
     leader_tpus (sv_balancer (sy_server s')) = leader_tpus (sv_balancer (sy_server s)) \<and>
     (sy_stream s = None \<longrightarrow> sy_stream s' = None \<and> sy_leader_msgs s' = sy_leader_msgs s)"
proof (cases e)
  case (Connect ident_opt addr tok now1 now2)
  with ex show ?thesis by (auto simp: tx_stream_def Let_def case_prod_beta split: option.splits)
next
  case (Session i ev')
  with ex show ?thesis by (auto simp: session_event_step_def dest: session_select_leaders)
next
  case (Run_call i rng created now1 now2)
  with ex have "run_call ev i rng created now1 now2 s = Done s'" by simp
  then show ?thesis by (cases rule: run_call_cases) (auto dest: publish_leaders)
next
  case (Leader_stream ev')
  show ?thesis
  proof (cases "sy_stream s")
    case None
    with ex Leader_stream show ?thesis by (simp add: leader_stream_def)
  next
    case (Some st)
    with ex Leader_stream show ?thesis by (auto dest!: leader_stream_frame)
  qed
next
  case (Refresh_nodes nodes validators jito)
  with ex have "with_updater (\<lambda>_. None) (ev_pubkey ev) (Nodes_hint (get_leader_info (ev_addr_string ev) nodes validators jito)) s = Done s'"
    by simp
  then show ?thesis by (rule with_updater_cases) simp_all
next
  case (Stake_task er vr)
  have "sy_stream (stake_task_round ev er vr s) = sy_stream s" "sy_leader_msgs (stake_task_round ev er vr s) = sy_leader_msgs s"
    by (simp_all add: stake_task_round_def Let_def)
  moreover have "leaders (sv_balancer (sy_server (stake_task_round ev er vr s))) = leaders (sv_balancer (sy_server s)) \<and>
      leader_tpus (sv_balancer (sy_server (stake_task_round ev er vr s))) = leader_tpus (sv_balancer (sy_server s))"
    by (rule stake_task_round_cases [of ev er vr s]) simp_all
  ultimately show ?thesis using ex Stake_task by auto
qed (use ex other in \<open>auto simp: http_request_def session_unsubscribe_def session_reset_def watch_arrival_def watch_tick_def
  check_done_def Let_def case_prod_beta dest!: metrics_request_Done split: list.splits\<close>)

lemma exec_info_map:
  assumes en: "sys_enabled msgs e s" and ex: "sys_exec ev e s = Done s'" and ok: "\<forall>c \<in> set (sy_info_map s). contact_ok (ev_addr_string ev) c"
  shows "\<forall>c \<in> set (sy_info_map s'). contact_ok (ev_addr_string ev) c"
proof (cases e)
  case (Run_call i rng created now1 now2)
  with ex have "run_call ev i rng created now1 now2 s = Done s'" by simp
  then show ?thesis by (cases rule: run_call_cases) (use ok in simp_all)
next
  case (Refresh_nodes nodes validators jito)
  with ex have "with_updater (\<lambda>_. None) (ev_pubkey ev) (Nodes_hint (get_leader_info (ev_addr_string ev) nodes validators jito)) s = Done s'"
    by simp
  then show ?thesis
  proof (cases rule: with_updater_cases)
    case (nodes resp)
    then show ?thesis using ok get_leader_info_contacts [of "ev_addr_string ev"] by (cases resp) auto
  qed simp
next
  case (Install_leaders gossip)
  with ex en have "sys_exec ev (Install_leaders gossip) s = Done s'" "sy_leader_msgs s \<noteq> []" by simp_all
  then show ?thesis by (cases rule: install_cases) (use ok in simp)
qed (use ex ok in \<open>auto simp: http_request_def watch_arrival_def watch_tick_def check_done_def stake_task_round_def
  Let_def case_prod_beta dest!: leader_stream_frame metrics_request_Done split: list.splits\<close>)

lemma leaders_ok_exec:
  assumes ok: "leaders_ok (ev_addr_string ev) s" and en: "sys_enabled msgs e s" and ex: "sys_exec ev e s = Done s'"
  shows "leaders_ok (ev_addr_string ev) s'"
proof -
  have info: "\<forall>c \<in> set (sy_info_map s'). contact_ok (ev_addr_string ev) c"
    using exec_info_map [OF en ex] ok by (simp add: leaders_ok_def)
  show ?thesis
  proof (cases "\<exists>gossip. e = Install_leaders gossip")
    case True
    then obtain gossip where "e = Install_leaders gossip" ..
    with ex en have "sys_exec ev (Install_leaders gossip) s = Done s'" "sy_leader_msgs s \<noteq> []" by simp_all
    then show ?thesis
    proof (cases rule: install_cases)
      case (1 plain rest contacts)
      have "\<forall>c \<in> set contacts. contact_ok (ev_addr_string ev) c"
        using ok leader_contact_ok unfolding 1(3) leaders_ok_def
        by (fastforce simp: set_map_filter dest!: set_hm_collect [THEN subsetD])
      with info show ?thesis by (simp add: leaders_ok_def 1(4)) (simp add: 1(3))
    qed
  next
    case False
    with exec_leader_frame [OF en ex] info ok show ?thesis by (simp add: leaders_ok_def)
  qed
qed

interpretation sys_leaders: preserved "sys_step ev msgs" "on_alive (leaders_ok (ev_addr_string ev))" for ev msgs
  by (rule sys_machine.preservedI) (rule leaders_ok_exec)

lemma sys_init_leaders: "leaders_ok str (sys_init inbox w l sub)"
  by (simp add: leaders_ok_def sys_init_def server_init_def balancer_new_def hm_values_def)

section \<open>Messages to the clients\<close>

text \<open>
  The documented behaviour of the channels: a message is handed over exactly when the send
  succeeds, after those handed over before.
\<close>

definition send_law ::
  "(chan \<Rightarrow> response_envelope \<Rightarrow> 'w \<Rightarrow> bool \<times> 'w) \<Rightarrow> ('w \<Rightarrow> (chan \<times> response_envelope) list) \<Rightarrow> bool" where
  "send_law send msgs \<longleftrightarrow>
     (\<forall>ch m w. msgs (snd (send ch m w)) = msgs w @ (if fst (send ch m w) then [(ch, m)] else []))"

lemma send_law_channel: "send_law (channel_send alive) id"
  by (simp add: send_law_def channel_send_def)

lemma send_lawD:
  assumes "send_law send msgs" and "send ch m w = (ok, w')"
  shows "set (msgs w') \<subseteq> insert (ch, m) (set (msgs w))"
proof -
  from assms have "msgs w' = msgs w @ (if ok then [(ch, m)] else [])"
    unfolding send_law_def by (metis fst_conv snd_conv)
  then show ?thesis by auto
qed

text \<open>A well-formed message: a ping with its number, or a decoded transaction with printed addresses.\<close>

definition envelope_ok ::
  "(string \<Rightarrow> 'bytes option) \<Rightarrow> ('bytes \<Rightarrow> string + 's list) \<Rightarrow> ('s \<Rightarrow> string) \<Rightarrow> ('a \<Rightarrow> string) \<Rightarrow> response_envelope \<Rightarrow> bool" where
  "envelope_ok b64 dec sig_str addr_str m \<longleftrightarrow>
     (\<exists>n. m = build_ping_message_envelope (u64_to_string n)) \<or>
     (\<exists>sg data tpus. m = build_tx_message_envelope (sig_str sg) data tpus \<and> first_signature b64 dec data = Some sg \<and>
        distinct tpus \<and> set tpus \<subseteq> range addr_str)"

definition traffic_ok ::
  "('g, 'w, 'key, 'hv, 'bytes, 's, 'p, 'a) sys_env \<Rightarrow> ('w \<Rightarrow> (chan \<times> response_envelope) list) \<Rightarrow> ('w, 'key, 's) system \<Rightarrow> bool" where
  "traffic_ok ev msgs s \<longleftrightarrow>
     (\<forall>(ch, m) \<in> set (msgs (sv_runtime (sy_server s))). ch < length (sv_sessions (sy_server s)) \<and>
        envelope_ok (ev_base64 ev) (ev_decode ev) (ev_sig_string ev) (ev_addr_string ev) m)"

lemma traffic_ok_mono:
  assumes "traffic_ok ev msgs s" and "length (sv_sessions (sy_server s)) \<le> length (sv_sessions (sy_server s'))"
    and "\<forall>(ch, m) \<in> set (msgs (sv_runtime (sy_server s'))) - set (msgs (sv_runtime (sy_server s))).
      ch < length (sv_sessions (sy_server s')) \<and> envelope_ok (ev_base64 ev) (ev_decode ev) (ev_sig_string ev) (ev_addr_string ev) m"
  shows "traffic_ok ev msgs s'"
  using assms unfolding traffic_ok_def by fastforce

lemma publish_loop_msgs:
  "send_law send msgs \<Longrightarrow> publish_loop send signature data ps session b w = (session', b', w') \<Longrightarrow>
     set (msgs w') \<subseteq> set (msgs w) \<union> envelope_for signature data ` set ps"
proof (induction send signature data ps session b w rule: publish_loop.induct)
  case (2 send signature data c info ps session b w)
  let ?m = "build_tx_message_envelope signature data (hs_collect (map li_tpu info))"
  obtain ok w1 where s: "send (tc_tx c) ?m w = (ok, w1)" by fastforce
  have "set (msgs w') \<subseteq> set (msgs w1) \<union> envelope_for signature data ` set ps"
    using "2.IH"(1) [OF refl refl refl s [symmetric] _ "2.prems"(1)] "2.IH"(2) [OF refl refl refl s [symmetric] _ "2.prems"(1)]
      "2.prems"(2) s by (cases ok) auto
  with send_lawD [OF "2.prems"(1) s] show ?case by (auto simp: envelope_for_def)
qed simp

lemma copies_member: "(c, info) \<in> set ps \<Longrightarrow> t \<in> set info \<Longrightarrow> 0 < copies t ps"
  by (induction ps) (auto simp: copies_def intro!: gr0I simp: count_list_0_iff)

lemma pick_infos:
  assumes "pick_consumers gen_range rng b = Done ps" and "(c, info) \<in> set ps"
  shows "c \<in> snd ` set (tx_consumers b)" and "set info \<subseteq> set (leader_tpus b) \<union> set (hm_values (leaders b))"
proof -
  have "c \<in> fst ` set (chosen gen_range rng b)"
    using assms(2) pick_consumers_fst [OF assms(1)] by (metis fst_conv image_eqI list.set_map)
  then show "c \<in> snd ` set (tx_consumers b)" by (rule chosen_connected)
  show "set info \<subseteq> set (leader_tpus b) \<union> set (hm_values (leaders b))"
  proof
    fix t assume t: "t \<in> set info"
    have "0 < copies t ps"
      by (rule copies_member [OF assms(2) t])
    moreover have "ps \<noteq> []" using assms(2) by auto
    ultimately have "0 < copies t (leader_consumers b) \<or> t \<in> set (leader_tpus b)"
      using pick_consumers_copies [OF assms(1), of t] by (auto simp: count_list_0_iff intro!: gr0I)
    then show "t \<in> set (leader_tpus b) \<union> set (hm_values (leaders b))"
      by (auto dest!: copies_pos map_of_SomeD simp: leader_consumers_iff hm_values_def hm_get_def) (metis image_eqI snd_conv)
  qed
qed

text \<open>What a publication hands over.\<close>

lemma publish_messages:
  assumes pub: "publish gen_range send rng session (str sg) data (sv_balancer sv) w = Done (r, b', w', out)"
    and law: "send_law send msgs" and inv: "sv_inv sv" and sg: "first_signature b64 dec data = Some sg"
    and lds: "leader_tpus (sv_balancer sv) = hm_values (leaders (sv_balancer sv))"
      "\<forall>e \<in> set (leaders (sv_balancer sv)). contact_ok addr e"
    and m: "(ch, m) \<in> set (msgs w') - set (msgs w)"
  shows "ch < length (sv_sessions sv) \<and> envelope_ok b64 dec str addr m"
  using pub
proof (cases rule: publish_cases)
  case (1 ps)
  with m show ?thesis by simp
next
  case (2 ps session')
  from publish_loop_msgs [OF law 2(4)] m obtain c info where ci: "(c, info) \<in> set ps"
    and em: "ch = tc_tx c" "m = build_tx_message_envelope (str sg) data (hs_collect (map li_tpu info))"
    by (auto simp: envelope_for_def)
  from pick_infos(1) [OF 2(1) ci] obtain k where "(k, c) \<in> set (tx_consumers (sv_balancer sv))" by auto
  from sv_invD(4) [OF inv this] em have "ch < length (sv_sessions sv)" by (auto simp: backed_by_def)
  moreover have "set (hs_collect (map li_tpu info)) \<subseteq> range addr"
    using pick_infos(2) [OF 2(1) ci] lds by (fastforce simp: hm_values_def contact_ok_def)
  with sg em(2) have "envelope_ok b64 dec str addr m" unfolding envelope_ok_def using distinct_hs_collect by blast
  ultimately show ?thesis ..
qed

lemma session_messages:
  assumes sel: "session_select send e t b w = Done (t', b', w', ops)" and law: "send_law send msgs"
    and m: "(ch, m) \<in> set (msgs w') - set (msgs w)"
  shows "ch = se_tx t \<and> (\<exists>n. m = build_ping_message_envelope (u64_to_string n))"
proof (cases e)
  case (Client_message msg elapsed)
  with sel m show ?thesis by (cases msg) auto
next
  case (Ping_hint now)
  let ?n = "pg_id (snd (ping_next now (se_ping_hint t)))"
  obtain ok w1 where s: "send (se_tx t) (build_ping_message_envelope (u64_to_string ?n)) w = (ok, w1)" by fastforce
  with Ping_hint sel have "w' = w1" by (auto simp: Let_def case_prod_beta)
  with send_lawD [OF law s] m show ?thesis by auto
qed (use sel m in auto)

lemma traffic_call:
  assumes t: "traffic_ok ev msgs s" and inv: "sv_inv (sy_server s)" and lds: "leaders_ok (ev_addr_string ev) s"
    and law: "send_law (ev_send ev) msgs" and call: "run_call ev i rng created now1 now2 s = Done s'"
  shows "traffic_ok ev msgs s'"
  using call
proof (cases rule: run_call_cases)
  case (quiet ops)
  then show ?thesis by (intro traffic_ok_mono [OF t]) simp_all
next
  case (forwarded meta a sg data config session b' w' ct rt)
  have "leader_tpus (sv_balancer (sy_server s)) = hm_values (leaders (sv_balancer (sy_server s)))"
    "\<forall>e \<in> set (leaders (sv_balancer (sy_server s))). contact_ok (ev_addr_string ev) e"
    using lds by (simp_all add: leaders_ok_def)
  from publish_messages [where str = "ev_sig_string ev" and sg = sg, OF forwarded(8) law inv forwarded(7) this] forwarded(9) show ?thesis
    by (intro traffic_ok_mono [OF t]) auto
qed

lemma traffic_session:
  assumes t: "traffic_ok ev msgs s" and inv: "sv_inv (sy_server s)" and law: "send_law (ev_send ev) msgs"
    and i: "i < length (sv_sessions (sy_server s))" and ex: "session_event_step (ev_send ev) i e (sy_server s) = Done sv'"
  shows "traffic_ok ev msgs (s\<lparr>sy_server := sv'\<rparr>)"
proof -
  from ex obtain t' b w ops where sel: "session_select (ev_send ev) e (sv_sessions (sy_server s) ! i)
      (sv_balancer (sy_server s)) (sv_runtime (sy_server s)) = Done (t', b, w, ops)"
    and sv': "sv' = (sy_server s)\<lparr>sv_sessions := (sv_sessions (sy_server s))[i := t'], sv_balancer := b,
      sv_runtime := w, sv_metrics := sv_metrics (sy_server s) @ ops\<rparr>"
    by (auto simp: session_event_step_def)
  from session_messages [OF sel law] sv_invD(3) [OF inv i] i show ?thesis
    by (intro traffic_ok_mono [OF t]) (auto simp: sv' envelope_ok_def)
qed

lemma install_runtime:
  "sys_exec ev (Install_leaders gossip) s = Done s' \<Longrightarrow> sy_leader_msgs s \<noteq> [] \<Longrightarrow>
     sv_runtime (sy_server s') = sv_runtime (sy_server s)"
  by (erule install_cases) simp_all

lemma traffic_exec:
  assumes t: "traffic_ok ev msgs s" and inv: "sv_inv (sy_server s)" and lds: "leaders_ok (ev_addr_string ev) s"
    and law: "send_law (ev_send ev) msgs" and en: "sys_enabled msgs e s" and ex: "sys_exec ev e s = Done s'"
  shows "traffic_ok ev msgs s'"
proof -
  note mono = sessions_mono [OF en ex]
  have keep: "traffic_ok ev msgs s'" if "msgs (sv_runtime (sy_server s')) = msgs (sv_runtime (sy_server s))"
    using mono that by (intro traffic_ok_mono [OF t]) auto
  show ?thesis
  proof (cases e)
    case (Session i ev')
    with en ex show ?thesis using traffic_session [OF t inv law] by auto
  next
    case (Run_call i rng created now1 now2)
    with ex traffic_call [OF t inv lds law] show ?thesis by simp
  next
    case (Refresh_nodes nodes validators jito)
    with ex have "with_updater (\<lambda>_. None) (ev_pubkey ev) (Nodes_hint (get_leader_info (ev_addr_string ev) nodes validators jito)) s = Done s'"
      by simp
    then have "sv_runtime (sy_server s') = sv_runtime (sy_server s)" by (rule with_updater_cases) simp_all
    then show ?thesis by (auto intro: keep)
  next
    case (Install_leaders gossip)
    with ex en install_runtime show ?thesis by (fastforce intro: keep)
  next
    case (Stake_task er vr)
    with ex have "sv_runtime (sy_server s') = sv_runtime (sy_server s)"
      by (auto intro: stake_task_round_cases [of ev er vr s])
    then show ?thesis by (auto intro: keep)
  qed (rule keep, (use ex en in \<open>auto simp: tx_stream_def http_request_def session_unsubscribe_def session_reset_def
    watch_arrival_def watch_tick_def check_done_def Let_def case_prod_beta dest!: leader_stream_frame metrics_request_Done
    split: list.splits option.splits\<close>)[1])+
qed

definition typed :: "('g, 'w, 'key, 'hv, 'bytes, 's, 'p, 'a) sys_env \<Rightarrow> ('w \<Rightarrow> (chan \<times> response_envelope) list) \<Rightarrow>
  ('w, 'key, 's) system \<Rightarrow> bool" where
  "typed ev msgs s \<longleftrightarrow> send_law (ev_send ev) msgs \<and> sv_inv (sy_server s) \<and> leaders_ok (ev_addr_string ev) s \<and> traffic_ok ev msgs s"

lemma typed_exec: "typed ev msgs s \<Longrightarrow> sys_enabled msgs e s \<Longrightarrow> sys_exec ev e s = Done s' \<Longrightarrow> typed ev msgs s'"
  unfolding typed_def using sys_registry_exec leaders_ok_exec traffic_exec by blast

interpretation sys_typed: preserved "sys_step ev msgs" "on_alive (typed ev msgs)" for ev msgs
  by (rule sys_machine.preservedI) (rule typed_exec)

lemma typed_init: "send_law (ev_send ev) msgs \<Longrightarrow> msgs w = [] \<Longrightarrow> typed ev msgs (sys_init inbox w l sub)"
  unfolding typed_def traffic_ok_def using sys_init_registry sys_init_leaders
  by (auto simp: sys_init_def server_init_def)

section \<open>A leader stream that has ended\<close>

definition frozen :: "(string, leader_info) hmap \<Rightarrow> leader_info list \<Rightarrow> ('w, 'key, 's) system \<Rightarrow> bool" where
  "frozen ls tpus s \<longleftrightarrow> sy_stream s = None \<and> sy_leader_msgs s = [] \<and>
     leaders (sv_balancer (sy_server s)) = ls \<and> leader_tpus (sv_balancer (sy_server s)) = tpus"

lemma frozen_exec:
  assumes "frozen ls tpus s" and "sys_enabled msgs e s" and "sys_exec ev e s = Done s'"
  shows "frozen ls tpus s'"
proof -
  have "e \<noteq> Install_leaders gossip" for gossip using assms(1,2) by (auto simp: frozen_def)
  from exec_leader_frame [OF assms(2,3) this] assms(1) show ?thesis by (simp add: frozen_def)
qed

interpretation sys_frozen: preserved "sys_step ev msgs" "on_alive (frozen ls tpus)" for ev msgs ls tpus
  by (rule sys_machine.preservedI) (rule frozen_exec)

section \<open>What ends the process\<close>

lemma outcome_bind_Panic: "outcome_bind m f = Panic e \<longleftrightarrow> m = Panic e \<or> (\<exists>x. m = Done x \<and> f x = Panic e)"
  by (cases m) auto

fun fatal ::
  "('g, 'w, 'key, 'hv, 'bytes, 's, 'p, 'a) sys_env \<Rightarrow> ('g, 'w, 'hv, 'p, 'a, 'e) sys_event \<Rightarrow> ('w, 'key, 's) system \<Rightarrow> bool" where
  "fatal ev (Connect ident_opt addr tok now1 now2) s \<longleftrightarrow> ident_opt \<noteq> None \<and> addr = None"
| "fatal ev (Session i (Client_message (Some (Inr env)) elapsed)) s \<longleftrightarrow>
     (case rq_rtt env of
        None \<Rightarrow> False
      | Some v \<Rightarrow> (case Option.bind (hm_get (rtt_values (sv_balancer (sy_server s))) (se_identity (sv_sessions (sy_server s) ! i)))
                            (\<lambda>m. hm_get m (rt_ip v)) of
                     Some slot \<Rightarrow> rv_n slot = - 1 | None \<Rightarrow> False))"
| "fatal ev (Http_request coin hdr calls) s \<longleftrightarrow> (case hdr of Some hv \<Rightarrow> ev_to_str ev hv = None | None \<Rightarrow> False)"
| "fatal ev (Run_call i rng created now1 now2) s \<longleftrightarrow>
     (let (meta, meth) = sy_pending s ! i; b = sv_balancer (sy_server s)
      in case send_payload meth of
           None \<Rightarrow> False
         | Some (data, config) \<Rightarrow> now1 < 0 \<or> admitted meta config \<and>
             (ev_base64 ev data = None \<or>
              rp_mode meta = FORWARD \<and> first_signature (ev_base64 ev) (ev_decode ev) data \<noteq> None \<and>
              (now2 < 0 \<or> leaders b \<noteq> [] \<and> length (leaders b) < length (chosen (ev_gen_range ev) rng b))))"
| "fatal ev (Leader_stream (Refresh_hint (Inr None))) s \<longleftrightarrow> sy_stream s \<noteq> None"
| "fatal ev (Install_leaders gossip) s \<longleftrightarrow>
     (\<exists>i \<in> set (hd (sy_leader_msgs s)). hm_get (sy_info_map s) i \<noteq> None \<and> ev_pubkey ev i = None)"
| "fatal ev (Metrics_task bound) s \<longleftrightarrow> \<not> bound"
| "fatal ev (Metrics_request meth path) s \<longleftrightarrow> meth = ''GET'' \<and> path = [''metrics''] \<and>
     Option.bind (ev_encode ev (sv_metrics (sy_server s))) (ev_utf8 ev) = None"
| "fatal ev (Grpc_server_ends r) s \<longleftrightarrow> r \<noteq> Done (Inr ())"
| "fatal ev _ s \<longleftrightarrow> False"

lemma update_rtt_Panic:
  "(\<exists>err. update_rtt ident v b = Panic err) \<longleftrightarrow>
     (case Option.bind (hm_get (rtt_values b) ident) (\<lambda>m. hm_get m (rt_ip v)) of Some slot \<Rightarrow> rv_n slot = - 1 | None \<Rightarrow> False)"
  by (auto simp: update_rtt_def Let_def eq_neg_iff_add_eq_0 split: option.splits)

lemma pick_Panic:
  assumes "leader_tpus b = hm_values (leaders b)"
  shows "(\<exists>err. pick_consumers gen_range rng b = Panic err) \<longleftrightarrow>
     leaders b \<noteq> [] \<and> length (leaders b) < length (chosen gen_range rng b)"
  using assms by (auto simp: pick_consumers_chosen Let_def hm_values_def div_eq_0_iff)

lemma call_Panic:
  assumes "leader_tpus (sv_balancer (sy_server s)) = hm_values (leaders (sv_balancer (sy_server s)))"
  shows "(\<exists>err. run_call ev i rng created now1 now2 s = Panic err) \<longleftrightarrow> fatal ev (Run_call i rng created now1 now2) s"
proof -
  obtain meta meth where p: "sy_pending s ! i = (meta, meth)" by fastforce
  show ?thesis
  proof (cases "send_payload meth")
    case None
    then show ?thesis using p
      by (cases meth rule: send_payload.cases) (auto simp: run_call_def get_io_handler_def outcome_bind_Panic)
  next
    case (Some dc)
    obtain data config where dc: "dc = (data, config)" by fastforce
    note io = get_io_handler_send [OF Some [unfolded dc]]
    have "(\<exists>err. run_call ev i rng created now1 now2 s = Panic err) \<longleftrightarrow>
        (\<exists>err. send_priority_transaction (ev_gen_range ev) (ev_send ev) (ev_base64 ev) (ev_decode ev) (ev_sig_string ev)
           created (time_ms now1) (time_ms now2) rng meta data config (sv_balancer (sy_server s)) (sv_runtime (sy_server s)) = Panic err)"
      using p by (auto simp: run_call_def Let_def outcome_bind_Panic io)
    then show ?thesis
      unfolding send_Panic_iff pick_Panic [OF assms] time_ms_Panic using p Some dc by (simp add: Let_def)
  qed
qed

lemma session_Panic:
  "(\<exists>err. session_event_step send i e sv = Panic err) \<longleftrightarrow>
     (\<exists>env elapsed v. e = Client_message (Some (Inr env)) elapsed \<and> rq_rtt env = Some v \<and>
        (\<exists>err. update_rtt (se_identity (sv_sessions sv ! i)) v (sv_balancer sv) = Panic err))"
proof (cases e)
  case (Client_message msg elapsed)
  then show ?thesis
    by (cases msg) (auto simp: session_event_step_def outcome_bind_Panic handle_client_request_def split: sum.splits option.splits)
qed (auto simp: session_event_step_def outcome_bind_Panic Let_def case_prod_beta)

lemma stream_Panic:
  "(\<exists>err. leader_stream e s = Panic err) \<longleftrightarrow> sy_stream s \<noteq> None \<and> e = Refresh_hint (Inr None)"
  by (cases e) (auto simp: leader_stream_def outcome_bind_Panic get_leader_schedule_def Let_def split: option.splits sum.splits)

lemma install_Panic:
  "sy_leader_msgs s = plain # rest \<Longrightarrow> (\<exists>err. sys_exec ev (Install_leaders gossip) s = Panic err) \<longleftrightarrow>
     (\<exists>i \<in> set plain. bad_key (ev_pubkey ev) (sy_info_map s) i)"
  by (auto simp: with_updater_def updater_new_leaders outcome_bind_Panic Let_def case_prod_beta simp del: updater_step.simps
      split: if_splits)

lemma fatal_Session:
  "fatal ev (Session i e) s \<longleftrightarrow> (\<exists>err. session_event_step (ev_send ev) i e (sy_server s) = Panic err)"
proof (cases e)
  case (Client_message msg elapsed)
  show ?thesis
  proof (cases msg)
    case (Some m)
    with Client_message show ?thesis unfolding session_Panic update_rtt_Panic by (cases m) (auto split: option.splits)
  qed (simp add: Client_message session_Panic)
qed (simp_all add: session_Panic)

lemma fatal_Leader_stream: "fatal ev (Leader_stream e) s \<longleftrightarrow> (\<exists>err. leader_stream e s = Panic err)"
proof (cases e)
  case (Refresh_hint resp)
  show ?thesis
  proof (cases resp)
    case (Inr sched)
    with Refresh_hint show ?thesis unfolding stream_Panic by (cases sched) simp_all
  qed (simp add: Refresh_hint stream_Panic)
qed (simp add: stream_Panic)

lemma request_Panic:
  "(\<exists>err. metrics_request ev meth path s = Panic err) \<longleftrightarrow> meth = ''GET'' \<and> path = [''metrics''] \<and>
     Option.bind (ev_encode ev (sv_metrics (sy_server s))) (ev_utf8 ev) = None"
  by (auto simp: metrics_request_def metrics_route_def metrics_handler_def unwrap_def outcome_bind_Panic split: option.splits)

lemma exec_Panic:
  assumes lds: "leader_tpus (sv_balancer (sy_server s)) = hm_values (leaders (sv_balancer (sy_server s)))"
    and en: "sys_enabled msgs e s" and go: "sys_quits e = None"
  shows "(\<exists>err. sys_exec ev e s = Panic err) \<longleftrightarrow> fatal ev e s"
proof (cases e)
  case (Connect ident_opt addr tok now1 now2)
  then show ?thesis
    by (auto simp: outcome_bind_Panic tx_stream_def Let_def case_prod_beta split: option.splits)
next
  case (Session i ev')
  then show ?thesis by (auto simp: fatal_Session outcome_bind_Panic)
next
  case (Http_request coin hdr calls)
  then show ?thesis
    by (auto simp: http_request_def meta_extractor_def outcome_bind_Panic Let_def case_prod_beta split: option.splits)
next
  case (Run_call i rng created now1 now2)
  with call_Panic [OF lds] show ?thesis by simp
next
  case (Leader_stream ev')
  then show ?thesis by (simp add: fatal_Leader_stream)
next
  case (Install_leaders gossip)
  with en obtain plain rest where "sy_leader_msgs s = plain # rest" by (cases "sy_leader_msgs s") auto
  with install_Panic [of s plain rest ev gossip] Install_leaders show ?thesis by (simp add: bad_key_def)
next
  case (Metrics_request meth path)
  then show ?thesis by (simp add: request_Panic)
next
  case (Grpc_server_ends r)
  with go show ?thesis by (cases e rule: sys_quits.cases) (auto split: outcome.splits)
next
  case (Metrics_task bound)
  then show ?thesis by (simp add: metrics_task_def metrics_spawn_def Let_def)
qed (auto simp: with_updater_def outcome_bind_Panic case_prod_beta)

lemma fill_le: "length (fill_consumers gen_range b k rng cs) \<le> length cs + k"
proof (induction k arbitrary: rng cs)
  case (Suc k)
  obtain pick rng' where p: "sample_consumer_stake_weighted gen_range b rng = (pick, rng')" by fastforce
  with Suc.IH [of rng' "cs @ [(the pick, [])]"] show ?case by (cases pick) auto
qed simp

text \<open>More leaders than consumers were chosen, unless there are fewer than \<open>N_CONSUMERS\<close> leaders.\<close>

lemma few_leaders:
  assumes "bal_inv b" and "length (leaders b) < length (chosen gen_range rng b)"
  shows "length (leaders b) < N_CONSUMERS"
proof -
  have "length (chosen gen_range rng b) \<le> max N_CONSUMERS (length (leader_consumers b))"
    using fill_le [of gen_range b "N_CONSUMERS - min (length (leader_consumers b)) N_CONSUMERS" rng "leader_consumers b"]
    unfolding chosen_def by linarith
  with leader_consumers_length [OF bal_invD(1) [OF assms(1)]] assms(2) show ?thesis by linarith
qed

section \<open>Properties\<close>

text \<open>
  C6. What the server sends is well typed. With channels that behave as documented, in every run of
  the server, every message handed over so far went to a connection that was opened, and is either a
  ping with a 64-bit number in decimal or a transaction whose payload is valid base64 of a
  transaction that decodes, filed under the printed first signature of that transaction, and whose
  TPU addresses are distinct and all printed by the socket address type: they come from the cluster
  nodes the RPC server reported or from the gossip table, never from anywhere else.
\<close>

theorem messages_well_typed:
  assumes "send_law (ev_send ev) msgs" and "msgs w = []"
    and "run (sys_step ev msgs) (Alive (sys_init inbox w l sub)) es (Alive s)"
  shows "\<forall>(ch, m) \<in> set (msgs (sv_runtime (sy_server s))). ch < length (sv_sessions (sy_server s)) \<and>
     ((\<exists>n. m = build_ping_message_envelope (u64_to_string n)) \<or>
      (\<exists>wire sg sgs tx. m = \<lparr>rs_transaction = Some tx, rs_ping = None\<rparr> \<and> ev_base64 ev (tr_data tx) = Some wire \<and>
         ev_decode ev wire = Inr (sg # sgs) \<and> tr_signature tx = ev_sig_string ev sg \<and>
         distinct (tr_tpu tx) \<and> set (tr_tpu tx) \<subseteq> range (ev_addr_string ev)))"
proof -
  from sys_typed.inv_run [OF assms(3)] typed_init [OF assms(1,2)] have "traffic_ok ev msgs s"
    by (simp add: typed_def)
  then show ?thesis
    unfolding traffic_ok_def envelope_ok_def build_tx_message_envelope_def first_signature_def
    by (fastforce split: option.splits sum.splits list.splits)
qed

theorem messages_well_typed_witness:
  "\<exists>s :: ((chan \<times> response_envelope) list, unit, string) system.
     run (sys_step env_demo id) (Alive sys_demo) (connect_demo @ leaders_demo @ call_demo @ check_demo) (Alive s) \<and>
     length (sv_runtime (sy_server s)) = 3 \<and> fst ` set (sv_runtime (sy_server s)) = {0}"
proof -
  obtain s where s: "run (sys_step env_demo id) (Alive sys_demo) (connect_demo @ leaders_demo @ call_demo @ check_demo) (Alive s)"
    "length (sv_sessions (sy_server s)) = 1" "length (sv_runtime (sy_server s)) = 3" by (rule demo_run)
  have "send_law (ev_send env_demo) id" by (simp add: env_demo_def send_law_channel)
  from messages_well_typed [OF this _ s(1) [unfolded sys_demo_def]] s(2)
  have "fst ` set (sv_runtime (sy_server s)) \<subseteq> {0}" by fastforce
  moreover have "sv_runtime (sy_server s) \<noteq> []" using s(3) by auto
  ultimately show ?thesis using s(1,3) by (metis image_is_empty set_empty subset_singletonD)
qed

text \<open>
  C21. One failed refresh freezes the leaders. When the refresh of the leader schedule fails while the
  leader stream is alive, the stream ends for good and nothing reports it: from then on, in every
  run, no leader set is ever made again, and once the sets already made are installed, the leaders
  the balancer sends to stay the same, whatever slots pass.
\<close>

theorem failed_refresh_freezes_leaders:
  assumes "sy_stream s = Some st" and "sys_exec ev (Leader_stream (Refresh_hint (Inl err))) s = Done s1"
    and "sy_leader_msgs s = []" and "run (sys_step ev msgs) (Alive s1) es (Alive s')"
  shows "sy_stream s' = None \<and> sy_leader_msgs s' = [] \<and>
     leaders (sv_balancer (sy_server s')) = leaders (sv_balancer (sy_server s)) \<and>
     leader_tpus (sv_balancer (sy_server s')) = leader_tpus (sv_balancer (sy_server s))"
proof -
  have "s1 = s\<lparr>sy_stream := None\<rparr>"
    using assms(1,2) by (simp add: leader_stream_def get_leader_schedule_def)
  then have "frozen (leaders (sv_balancer (sy_server s))) (leader_tpus (sv_balancer (sy_server s))) s1"
    using assms(3) by (simp add: frozen_def)
  with sys_frozen.inv_run [OF assms(4)] show ?thesis by (simp add: frozen_def)
qed

theorem failed_refresh_freezes_leaders_witness:
  "\<exists>s s' :: ((chan \<times> response_envelope) list, unit, string) system.
     run (sys_step env_demo id) (Alive sys_demo) (connect_demo @ leaders_demo) (Alive s) \<and>
     run (sys_step env_demo id) (Alive (s\<lparr>sy_stream := None\<rparr>)) [Leader_stream (Slot_info 9) :: demo_event] (Alive s') \<and>
     leaders (sv_balancer (sy_server s)) \<noteq> [] \<and>
     leaders (sv_balancer (sy_server s')) = leaders (sv_balancer (sy_server s))"
proof -
  have "case sys_trace env_demo id (connect_demo @ leaders_demo) sys_demo of
      Some s \<Rightarrow> leaders (sv_balancer (sy_server s)) \<noteq> [] \<and> sy_leader_msgs s = [] \<and> sy_stream s \<noteq> None | None \<Rightarrow> False" by code_simp
  then obtain s st where t: "sys_trace env_demo id (connect_demo @ leaders_demo) sys_demo = Some s"
    and s: "leaders (sv_balancer (sy_server s)) \<noteq> []" "sy_leader_msgs s = []" "sy_stream s = Some st"
    by (auto split: option.splits)
  let ?s = "s\<lparr>sy_stream := None\<rparr>"
  have r: "run (sys_step env_demo id) (Alive ?s) [Leader_stream (Slot_info 9) :: demo_event] (Alive ?s)"
    by (rule sys_machine.trace_run) (simp add: leader_stream_def)
  have "sys_exec env_demo (Leader_stream (Refresh_hint (Inl ''timeout'')) :: demo_event) s = Done ?s"
    using s(3) by (simp add: leader_stream_def get_leader_schedule_def)
  from failed_refresh_freezes_leaders [OF s(3) this s(2) r]
  have "leaders (sv_balancer (sy_server ?s)) = leaders (sv_balancer (sy_server s))" by blast
  with sys_machine.trace_run [OF t] r s(1) show ?thesis by blast
qed

text \<open>
  C13. What ends the server. In every reachable state the events that end the process with exit code
  1 are exactly these: a client with a certificate connects over a transport without a remote
  address; a client reports a round trip for an address whose 64-bit counter is exhausted; a request
  has an authorization header that is not printable; a send call begins while the clock is set to
  before 1970; an authenticated call that skips preflight has a payload that is not base64, or has a
  decodable transaction to forward while the clock is set to before 1970 or the known leaders
  are fewer than the consumers chosen for it, which means fewer than \<open>N_CONSUMERS\<close>; the RPC node
  knows no leader schedule; a scheduled leader has a validator record but no valid public key; the
  metrics exporter cannot bind its address, or the metrics it is asked for cannot be encoded as
  UTF-8 text; the gRPC server cannot be started or ends with an error. The process ends with code 0
  exactly when the gRPC server stops without one, and with no other code. Every other event leaves
  the server running, whatever the network, the chain and the clients answer.
\<close>

theorem server_exits_iff:
  fixes ev :: "('g, 'w, 'key, 'hv, 'bytes, 's, 'p, 'a) sys_env" and e :: "('g, 'w, 'hv, 'p, 'a, 'e) sys_event"
    and es :: "('g, 'w, 'hv, 'p, 'a, 'e) sys_event list"
  assumes "run (sys_step ev msgs) (Alive (sys_init inbox w l sub)) es (Alive s)" and "sys_enabled msgs e s"
  shows "(sys_step ev msgs (Alive s) e (Exited 1) \<longleftrightarrow> fatal ev e s) \<and>
     (sys_step ev msgs (Alive s) e (Exited 0) \<longleftrightarrow> e = Grpc_server_ends (Done (Inr ()))) \<and>
     (sys_step ev msgs (Alive s) e (Exited c) \<longrightarrow> c = 0 \<or> c = 1) \<and>
     (\<not> fatal ev e s \<and> e \<noteq> Grpc_server_ends (Done (Inr ())) \<longrightarrow> (\<exists>s'. sys_step ev msgs (Alive s) e (Alive s'))) \<and>
     (\<forall>rng. length (leaders (sv_balancer (sy_server s))) < length (chosen (ev_gen_range ev) rng (sv_balancer (sy_server s))) \<longrightarrow>
        length (leaders (sv_balancer (sy_server s))) < N_CONSUMERS)"
proof -
  from sys_leaders.inv_run [OF assms(1)] sys_init_leaders have "leaders_ok (ev_addr_string ev) s" by fastforce
  then have "leader_tpus (sv_balancer (sy_server s)) = hm_values (leaders (sv_balancer (sy_server s)))"
    by (simp add: leaders_ok_def)
  note panic = exec_Panic [OF this assms(2), of ev]
  from sys_registry.inv_run [OF assms(1)] sys_init_registry have "sv_inv (sy_server s)" by fastforce
  then have few: "\<forall>rng. length (leaders (sv_balancer (sy_server s))) < length (chosen (ev_gen_range ev) rng (sv_balancer (sy_server s))) \<longrightarrow>
      length (leaders (sv_balancer (sy_server s))) < N_CONSUMERS"
    by (intro allI impI few_leaders) (rule sv_invD(1))
  note iffs = sys_machine.exits_iff [OF assms(2)] sys_machine.continues_iff [OF assms(2)]
  show ?thesis
  proof (cases "sys_quits e")
    case None
    then have "e \<noteq> Grpc_server_ends (Done (Inr ()))" by auto
    moreover from panic [OF None] have "fatal ev e s \<longleftrightarrow> \<not> (\<exists>s'. sys_exec ev e s = Done s')" by (cases "sys_exec ev e s") auto
    ultimately show ?thesis unfolding iffs panic [OF None] using None few by (intro conjI) simp_all
  next
    case (Some code)
    then have "e = Grpc_server_ends (Done (Inr ())) \<and> code = 0 \<or> (\<exists>err. e = Grpc_server_ends (Done (Inl err)) \<and> code = 1)"
      by (cases e rule: sys_quits.cases) auto
    then show ?thesis unfolding iffs using few by (elim disjE exE conjE) (intro conjI, simp_all)+
  qed
qed

theorem server_exits_iff_witness:
  "\<exists>s :: ((chan \<times> response_envelope) list, unit, string) system.
     run (sys_step env_demo id) (Alive sys_demo) (connect_demo @ [Http_request False None
       [Some (SendTransaction ''!'' (Some \<lparr>cf_skip_preflight = Some True\<rparr>))]] :: demo_event list) (Alive s) \<and>
     sys_step env_demo id (Alive s) (Run_call 0 () 1 2000000 3000000 :: demo_event) (Exited 1)"
proof -
  let ?es = "connect_demo @ [Http_request False None [Some (SendTransaction ''!'' (Some \<lparr>cf_skip_preflight = Some True\<rparr>))]]"
  have "case sys_trace env_demo id ?es sys_demo of
      Some s \<Rightarrow> length (sy_pending s) = 1 \<and> fst (sy_pending s ! 0) = \<lparr>rp_auth = Inr (Allow ''unknown''), rp_req_id = 0, rp_mode = FORWARD\<rparr> \<and>
        send_payload (snd (sy_pending s ! 0)) = Some (''!'', Some \<lparr>cf_skip_preflight = Some True\<rparr>)
    | None \<Rightarrow> False" by code_simp
  then obtain s where "sys_trace env_demo id ?es sys_demo = Some s" and p: "length (sy_pending s) = 1"
    "fst (sy_pending s ! 0) = \<lparr>rp_auth = Inr (Allow ''unknown''), rp_req_id = 0, rp_mode = FORWARD\<rparr>"
    "send_payload (snd (sy_pending s ! 0)) = Some (''!'', Some \<lparr>cf_skip_preflight = Some True\<rparr>)"
    by (auto split: option.splits)
  then have r: "run (sys_step env_demo id) (Alive sys_demo) ?es (Alive s)" by (blast intro: sys_machine.trace_run)
  have "sys_enabled id (Run_call 0 () 1 2000000 3000000 :: demo_event) s" using p(1) by simp
  moreover have "fatal env_demo (Run_call 0 () 1 2000000 3000000 :: demo_event) s"
    using p by (cases "sy_pending s ! 0") (simp add: admitted_def env_demo_def b64_demo_def)
  ultimately show ?thesis using server_exits_iff [OF r [unfolded sys_demo_def]] r by blast
qed

end
