(* ===== verification/Server_Requests.thy ===== *)
theory Server_Requests
  imports Server_Traffic
begin

text \<open>
  From the command line to the clients: with a public key configured, what the running server hands
  out can be traced back, through the start, the listener, its pending calls and the handler of the
  call, to an authenticated request. The invariant relates the state to all events so far.
\<close>

section \<open>Where pending calls and handed sessions come from\<close>

definition vouched ::
  "('g, 'w, 'key, 'hv, 'bytes, 's, 'p, 'a) sys_env \<Rightarrow> 'key \<Rightarrow> string list \<Rightarrow> ('g, 'w, 'hv, 'p, 'a, 'e) sys_event list \<Rightarrow>
   rpc_state \<Rightarrow> rpc_method option \<Rightarrow> bool" where
  "vouched ev key partners es meta meth \<longleftrightarrow>
     (\<exists>coin hdr calls. Http_request coin hdr calls \<in> set es \<and> meth \<in> set calls \<and>
        rp_auth meta = authenticate (ev_verify ev) key (Option.bind hdr (ev_to_str ev)) \<and>
        rp_mode meta = select_mode coin (case rp_auth meta of Inr x \<Rightarrow> Some x | Inl _ \<Rightarrow> None) partners)"

definition earned ::
  "('g, 'w, 'key, 'hv, 'bytes, 's, 'p, 'a) sys_env \<Rightarrow> 'key \<Rightarrow> string list \<Rightarrow> ('g, 'w, 'hv, 'p, 'a, 'e) sys_event list \<Rightarrow>
   's signature_record \<Rightarrow> bool" where
  "earned ev key partners es session \<longleftrightarrow>
     (\<exists>meta meth a data config. vouched ev key partners es meta meth \<and> rp_auth meta = Inr a \<and> rp_mode meta = FORWARD \<and>
        send_payload meth = Some (data, config) \<and> first_signature (ev_base64 ev) (ev_decode ev) data = Some (sr_signature session) \<and>
        sr_partner_name session = auth_to_string a)"

definition requests_ok ::
  "('g, 'w, 'key, 'hv, 'bytes, 's, 'p, 'a) sys_env \<Rightarrow> 'key \<Rightarrow> string list \<Rightarrow> ('g, 'w, 'hv, 'p, 'a, 'e) sys_event list \<Rightarrow>
   ('w, 'key, 's) system \<Rightarrow> bool" where
  "requests_ok ev key partners es s \<longleftrightarrow>
     rl_public_key (sy_listener s) = Some key \<and> rl_partners (sy_listener s) = partners \<and>
     (\<forall>(meta, meth) \<in> set (sy_pending s). vouched ev key partners es meta meth) \<and>
     (\<forall>session \<in> set (sy_handed s). earned ev key partners es session)"

lemma vouched_mono: "vouched ev key partners es meta meth \<Longrightarrow> vouched ev key partners (es @ es') meta meth"
  unfolding vouched_def by (metis UnI1 set_append)

lemma earned_mono: "earned ev key partners es session \<Longrightarrow> earned ev key partners (es @ es') session"
  unfolding earned_def using vouched_mono by metis

lemma requests_frame:
  assumes "requests_ok ev key partners es s" and "sy_listener s' = sy_listener s" and "set (sy_pending s') \<subseteq> set (sy_pending s)"
    and "sy_handed s' = sy_handed s"
  shows "requests_ok ev key partners (es @ es') s'"
  using assms vouched_mono earned_mono unfolding requests_ok_def by fastforce

lemma requests_http:
  assumes inv: "requests_ok ev key partners es s" and ex: "http_request ev coin hdr calls s = Done s'"
  shows "requests_ok ev key partners (es @ [Http_request coin hdr calls]) s'"
proof -
  let ?es = "es @ [Http_request coin hdr calls]"
  from ex obtain meta l where meta: "meta_extractor (ev_verify ev) (ev_to_str ev) coin hdr (sy_listener s) = Done (meta, l)"
    and s': "s' = s\<lparr>sy_listener := l, sy_pending := sy_pending s @ map (Pair meta) calls\<rparr>"
    by (auto simp: http_request_def)
  from inv have listener: "rl_public_key (sy_listener s) = Some key" "rl_partners (sy_listener s) = partners"
    by (simp_all add: requests_ok_def)
  with meta have "vouched ev key partners ?es meta meth" if "meth \<in> set calls" for meth
    using that unfolding meta_extractor_Done vouched_def
    by (intro exI [of _ coin] exI [of _ hdr] exI [of _ calls]) (cases hdr, auto)
  moreover have "rl_public_key l = Some key" "rl_partners l = partners"
    using meta listener unfolding meta_extractor_Done by auto
  moreover note requests_frame [OF inv refl order_refl refl, of "[Http_request coin hdr calls]"]
  ultimately show ?thesis by (auto simp: requests_ok_def s')
qed

lemma set_drop_nth: "set (take i xs @ drop (Suc i) xs) \<subseteq> set xs"
  by (auto dest: in_set_takeD in_set_dropD)

lemma requests_call:
  assumes inv: "requests_ok ev key partners es s" and ex: "run_call ev i rng created now1 now2 s = Done s'"
    and i: "i < length (sy_pending s)"
  shows "requests_ok ev key partners (es @ es') s'"
  using ex
proof (cases rule: run_call_cases)
  case (quiet ops)
  with set_drop_nth show ?thesis by (intro requests_frame [OF inv]) simp_all
next
  case (forwarded meta a sg data config session b' w' ct rt)
  let ?meth = "snd (sy_pending s ! i)"
  have "vouched ev key partners es meta ?meth"
    using inv nth_mem [OF i] forwarded(4) unfolding requests_ok_def by (metis (no_types, lifting) case_prodD prod.collapse)
  moreover from publish_session [OF forwarded(8)] have "sr_partner_name session = auth_to_string a" "sr_signature session = sg"
    by (auto simp: new_session_def)
  ultimately have "earned ev key partners es session"
    unfolding earned_def using forwarded by (intro exI [of _ meta] exI [of _ ?meth] exI [of _ a] exI [of _ data] exI [of _ config]) simp
  then have "earned ev key partners (es @ es') session" by (rule earned_mono)
  moreover have "requests_ok ev key partners (es @ es') (s'\<lparr>sy_handed := sy_handed s\<rparr>)"
    using set_drop_nth forwarded(9) by (intro requests_frame [OF inv]) simp_all
  ultimately show ?thesis by (auto simp: requests_ok_def forwarded(9))
qed

lemma requests_exec:
  assumes inv: "requests_ok ev key partners es s" and en: "sys_enabled msgs e s" and ex: "sys_exec ev e s = Done s'"
  shows "requests_ok ev key partners (es @ [e]) s'"
proof (cases e)
  case (Http_request coin hdr calls)
  with requests_http [OF inv] ex show ?thesis by simp
next
  case (Run_call i rng created now1 now2)
  with requests_call [OF inv] ex en show ?thesis by simp
next
  case (Refresh_nodes nodes validators jito)
  with ex have "with_updater (\<lambda>_. None) (ev_pubkey ev) (Nodes_hint (get_leader_info (ev_addr_string ev) nodes validators jito)) s = Done s'"
    by simp
  then show ?thesis by (rule with_updater_cases) (auto intro: requests_frame [OF inv])
next
  case (Install_leaders gossip)
  with ex en have "sys_exec ev (Install_leaders gossip) s = Done s'" "sy_leader_msgs s \<noteq> []" by simp_all
  then show ?thesis by (cases rule: install_cases) (auto intro: requests_frame [OF inv])
qed (use ex in \<open>auto simp: watch_arrival_def watch_tick_def check_done_def stake_task_round_def Let_def case_prod_beta
  dest!: leader_stream_frame metrics_request_Done intro!: requests_frame [OF inv] split: list.splits\<close>)

lemma requests_init:
  "rl_public_key l = Some key \<Longrightarrow> requests_ok ev key (rl_partners l) [] (sys_init inbox w l sub)"
  by (simp add: requests_ok_def sys_init_def)

section \<open>Properties\<close>

text \<open>
  C22. A server started with a public key hands out authenticated transactions only. Let the server
  have started with a public key configured, and let any of its events happen, in any order: for
  every session it has handed to the watcher (one per transaction that was given to clients) there
  was an HTTP request whose header is a bearer token that the verifier accepts under the key loaded
  from the configured file, and one of the calls of that request is a send call whose payload decodes to
  the transaction of that session. The session is filed under the principal of the verified claims;
  and if that is one of the configured test partners, the coin of the request said to forward.
\<close>

theorem started_server_authenticates:
  assumes "server_start n inbox p = Done (Inr r)" and "pa_jwt_public_key p = Some path"
    and "run (sys_step ev msgs) (Alive (sys_init inbox w (ru_listener r) sub)) es (Alive s)"
    and "session \<in> set (sy_handed s)"
  shows "\<exists>key coin hv calls h tok j meth data config. sn_load_key n path = Inr key \<and>
     Http_request coin (Some hv) calls \<in> set es \<and> ev_to_str ev hv = Some h \<and> split_whitespace h = [''Bearer'', tok] \<and>
     ev_verify ev key tok = Inr j \<and> meth \<in> set calls \<and> send_payload meth = Some (data, config) \<and>
     first_signature (ev_base64 ev) (ev_decode ev) data = Some (sr_signature session) \<and>
     sr_partner_name session = jwt_to_string j \<and>
     \<not> (coin \<and> jwt_to_string j \<in> set (case pa_test_partners p of Some ps \<Rightarrow> ps | None \<Rightarrow> []))"
proof -
  let ?partners = "case pa_test_partners p of Some ps \<Rightarrow> ps | None \<Rightarrow> []"
  from server_starts_iff [of n inbox p] assms(1,2) obtain key where key: "sn_load_key n path = Inr key"
    "rl_public_key (ru_listener r) = Some key" "rl_partners (ru_listener r) = ?partners" by auto
  have "requests_ok ev key ?partners es s"
    by (rule sys_machine.trace_inv [OF assms(3)])
       (use requests_init [OF key(2)] key(3) requests_exec in \<open>fastforce+\<close>)
  with assms(4) have "earned ev key ?partners es session" by (simp add: requests_ok_def)
  then obtain meta meth a data config where v: "vouched ev key ?partners es meta meth" "rp_auth meta = Inr a" "rp_mode meta = FORWARD"
    and call: "send_payload meth = Some (data, config)" "first_signature (ev_base64 ev) (ev_decode ev) data = Some (sr_signature session)"
      "sr_partner_name session = auth_to_string a"
    unfolding earned_def by blast
  from v obtain coin hdr calls where req: "Http_request coin hdr calls \<in> set es" "meth \<in> set calls"
    "authenticate (ev_verify ev) key (Option.bind hdr (ev_to_str ev)) = Inr a" "select_mode coin (Some a) ?partners = FORWARD"
    unfolding vouched_def by auto
  from req(3) obtain hv h tok j where "hdr = Some hv" "ev_to_str ev hv = Some h" "split_whitespace h = [''Bearer'', tok]"
    "ev_verify ev key tok = Inr j" "a = JWT j" unfolding authenticate_Inr_iff by (auto simp: bind_eq_Some_conv)
  with key(1) req call show ?thesis by (fastforce simp: select_mode_def split: if_splits)
qed

definition keyed_params :: params where
  "keyed_params = params_demo\<lparr>pa_jwt_public_key := Some ''key.pem'', pa_test_partners := Some [''JWT:partner:acme'']\<rparr>"

definition keyed_start :: "(string, string, unit, unit) start_env" where
  "keyed_start = start_demo\<lparr>sn_load_key := (\<lambda>path. Inr ())\<rparr>"

definition keyed_events :: "demo_event list" where
  "keyed_events = connect_demo @ leaders_demo @
     [Http_request False (Some ''Bearer bad'') [Some (SendTransaction ''ty'' (Some \<lparr>cf_skip_preflight = Some True\<rparr>))],
      Http_request False (Some ''Bearer good'') [Some GetHealth, Some (SendTransaction ''tx'' (Some \<lparr>cf_skip_preflight = Some True\<rparr>))],
      Run_call 0 () 1 2000000 3000000, Run_call 1 () 1 2000000 3000000]"

theorem started_server_authenticates_witness:
  "\<exists>r s session. server_start keyed_start 0 keyed_params = Done (Inr r) \<and>
     run (sys_step env_demo id) (Alive (sys_init 0 [] (ru_listener r) (Inr ()))) keyed_events (Alive s) \<and>
     sy_handed s = [session] \<and> sr_partner_name session = ''JWT:partner:acme''"
proof -
  have "case server_start keyed_start 0 keyed_params of Done (Inr r) \<Rightarrow>
      (case sys_trace env_demo id keyed_events (sys_init 0 [] (ru_listener r) (Inr ())) of Some s \<Rightarrow> length (sy_handed s) = 1 | None \<Rightarrow> False)
    | _ \<Rightarrow> False" by code_simp
  then obtain r s where start: "server_start keyed_start 0 keyed_params = Done (Inr r)"
    and t: "sys_trace env_demo id keyed_events (sys_init 0 [] (ru_listener r) (Inr ())) = Some s" "length (sy_handed s) = 1"
    by (auto split: outcome.splits sum.splits option.splits)
  note run = sys_machine.trace_run [OF t(1)]
  from t(2) obtain session where session: "sy_handed s = [session]" by (metis One_nat_def length_0_conv length_Suc_conv)
  have "pa_jwt_public_key keyed_params = Some ''key.pem''" by (simp add: keyed_params_def)
  from started_server_authenticates [OF start this run, of session] session
  have "sr_partner_name session = ''JWT:partner:acme''"
    by (auto simp: env_demo_def verify_demo_def jwt_to_string_def split: if_splits)
  with start run session show ?thesis by blast
qed

end
