(* ===== verification/Client_Forwarder.thy ===== *)
theory Client_Forwarder
  imports Server_Types
begin

text \<open>
  The client's forwarders: \<^verbatim>\<open>client/forwarder.rs\<close>, \<^verbatim>\<open>quic_forwarder.rs\<close>,
  \<^verbatim>\<open>rpc_forwarder.rs\<close> and the counters of \<^verbatim>\<open>client/metrics.rs\<close> they update.

  A forwarder is a state machine: \<open>process\<close> spawns tasks, and each task starts, acquires a permit
  of the semaphore, sends, and ends. The counters belong to the prometheus crate: the model keeps
  the sequence of operations, and reading the permits gauge is the parameter \<open>get_permits\<close>.
  Parsing a TPU address (\<open>parse_tpu\<close>), base64 and the network result are parameters too.
\<close>

section \<open>Metrics\<close>

datatype client_metric = TX_RECEIVED_COUNT | TX_FORWARD_SUCCEEDED_COUNT | TX_FORWARD_FAILED_COUNT

datatype client_op = Count client_metric string | Permits_set int

definition observe_quic_forwarded_available_permits ::
  "(client_op list \<Rightarrow> int) \<Rightarrow> nat \<Rightarrow> client_op list \<Rightarrow> client_op list" where
  "observe_quic_forwarded_available_permits get_permits permits_used ops =
     ops @ [Permits_set (max (get_permits ops) (as_i64 (usize_as_u64 permits_used)))]"

section \<open>Forwarders\<close>

record forwarded_transaction =
  fo_source :: string
  fo_transaction :: pb_transaction

datatype 'cert transaction_forwarder =
    Quic nat "'cert option"
  | Rpc string nat
  | Blackhole

text \<open>\<open>identity\<close> and \<open>tpu_addr\<close> are the key pair and the address; a certificate needs both.\<close>

definition quic_new :: "'k option \<Rightarrow> 'a option \<Rightarrow> nat \<Rightarrow> ('k \<times> 'a) transaction_forwarder" where
  "quic_new ident tpu_addr max_permits =
     Quic max_permits (case (ident, tpu_addr) of (Some k, Some a) \<Rightarrow> Some (k, a) | _ \<Rightarrow> None)"

definition spawn_forwarder ::
  "'k option \<Rightarrow> 'a option \<Rightarrow> string option \<Rightarrow> bool \<Rightarrow> nat \<Rightarrow> ('k \<times> 'a) transaction_forwarder outcome" where
  "spawn_forwarder ident tpu_addr rpc_url blackhole throttle_parallel =
     (if blackhole then Done Blackhole
      else case rpc_url of
             Some url \<Rightarrow>
               if ident \<noteq> None \<or> tpu_addr \<noteq> None
               then Panic ''Cannot use parameters identity and tpu-addr when rpc-url is specified!''
               else Done (Rpc url throttle_parallel)
           | None \<Rightarrow> Done (quic_new ident tpu_addr throttle_parallel))"

section \<open>Tasks\<close>

datatype task_phase = Spawned | Waiting | Sending | Ended

text \<open>A QUIC task has the TPU address it sends to; an RPC task has none.\<close>

record fwd_task =
  ft_source :: string
  ft_transaction :: pb_transaction
  ft_tpu :: "string option"
  ft_phase :: task_phase

record fwd_state =
  fs_max_permits :: nat
  fs_available :: nat
  fs_tasks :: "fwd_task list"
  fs_ops :: "client_op list"

definition fwd_init :: "'cert transaction_forwarder \<Rightarrow> fwd_state" where
  "fwd_init f =
     (let n = (case f of Quic max_permits _ \<Rightarrow> max_permits | Rpc _ throttle_parallel \<Rightarrow> throttle_parallel | Blackhole \<Rightarrow> 0)
      in \<lparr>fs_max_permits = n, fs_available = n, fs_tasks = [], fs_ops = []\<rparr>)"

definition count_op :: "client_metric \<Rightarrow> string \<Rightarrow> fwd_state \<Rightarrow> fwd_state" where
  "count_op m source st = st\<lparr>fs_ops := fs_ops st @ [Count m source]\<rparr>"

definition spawn_transaction_forwarder :: "string \<Rightarrow> pb_transaction \<Rightarrow> string option \<Rightarrow> fwd_state \<Rightarrow> fwd_state" where
  "spawn_transaction_forwarder source tx tpu st =
     st\<lparr>fs_tasks := fs_tasks st @ [\<lparr>ft_source = source, ft_transaction = tx, ft_tpu = tpu, ft_phase = Spawned\<rparr>]\<rparr>"

definition blackhole_process :: "string \<Rightarrow> pb_transaction \<Rightarrow> fwd_state \<Rightarrow> fwd_state" where
  "blackhole_process source tx st =
     count_op TX_FORWARD_SUCCEEDED_COUNT source (count_op TX_RECEIVED_COUNT source st)"

definition quic_process :: "string \<Rightarrow> pb_transaction \<Rightarrow> fwd_state \<Rightarrow> fwd_state" where
  "quic_process source tx st =
     fold (\<lambda>tpu. spawn_transaction_forwarder source tx (Some tpu)) (tr_tpu tx) (count_op TX_RECEIVED_COUNT source st)"

definition rpc_process :: "string \<Rightarrow> pb_transaction \<Rightarrow> fwd_state \<Rightarrow> fwd_state" where
  "rpc_process source tx st =
     spawn_transaction_forwarder source tx None (count_op TX_RECEIVED_COUNT source st)"

fun process :: "'cert transaction_forwarder \<Rightarrow> string \<Rightarrow> pb_transaction \<Rightarrow> fwd_state \<Rightarrow> fwd_state" where
  "process (Quic _ _) source tx st = quic_process source tx st"
| "process (Rpc _ _) source tx st = rpc_process source tx st"
| "process Blackhole source tx st = blackhole_process source tx st"

lemmas process_defs [simp] = blackhole_process_def quic_process_def rpc_process_def

definition set_phase :: "nat \<Rightarrow> task_phase \<Rightarrow> fwd_state \<Rightarrow> fwd_state" where
  "set_phase i p st = st\<lparr>fs_tasks := (fs_tasks st)[i := (fs_tasks st ! i)\<lparr>ft_phase := p\<rparr>]\<rparr>"

text \<open>The code of a task up to the semaphore; an RPC task has none.\<close>

definition task_begin ::
  "(client_op list \<Rightarrow> int) \<Rightarrow> (string \<Rightarrow> 'addr option) \<Rightarrow> (string \<Rightarrow> 'bytes option) \<Rightarrow> nat \<Rightarrow> fwd_state \<Rightarrow>
   fwd_state outcome" where
  "task_begin get_permits parse_tpu base64_decode i st =
     (case ft_tpu (fs_tasks st ! i) of
        None \<Rightarrow> Done (set_phase i Waiting st)
      | Some tpu \<Rightarrow>
          (let st' = st\<lparr>fs_ops := observe_quic_forwarded_available_permits get_permits
                          (fs_max_permits st - fs_available st) (fs_ops st)\<rparr>
           in case parse_tpu tpu of
                None \<Rightarrow> Panic ''called `Result::unwrap()` on an `Err` value''
              | Some addr \<Rightarrow>
                  (case base64_decode (tr_data (ft_transaction (fs_tasks st ! i))) of
                     None \<Rightarrow> Panic ''called `Result::unwrap()` on an `Err` value''
                   | Some wire \<Rightarrow> Done (set_phase i Waiting st'))))"

definition task_acquire :: "nat \<Rightarrow> fwd_state \<Rightarrow> fwd_state" where
  "task_acquire i st = (set_phase i Sending st)\<lparr>fs_available := fs_available st - 1\<rparr>"

definition handle_send_result :: "string \<Rightarrow> bool \<Rightarrow> fwd_state \<Rightarrow> fwd_state" where
  "handle_send_result source ok st =
     count_op (if ok then TX_FORWARD_SUCCEEDED_COUNT else TX_FORWARD_FAILED_COUNT) source st"

definition task_finish :: "nat \<Rightarrow> bool \<Rightarrow> fwd_state \<Rightarrow> fwd_state" where
  "task_finish i ok st =
     (let st' = handle_send_result (ft_source (fs_tasks st ! i)) ok st
      in (set_phase i Ended st')\<lparr>fs_available := fs_available st + 1\<rparr>)"

text \<open>
  The forwarder at work. \<open>fwd_run f gp pt b64 txs st\<close>: the forwarder has processed \<open>txs\<close>, in
  this order, and its tasks have made some progress.
\<close>

inductive fwd_run ::
  "'cert transaction_forwarder \<Rightarrow> (client_op list \<Rightarrow> int) \<Rightarrow> (string \<Rightarrow> 'addr option) \<Rightarrow>
   (string \<Rightarrow> 'bytes option) \<Rightarrow> forwarded_transaction list \<Rightarrow> fwd_state \<Rightarrow> bool"
  for f get_permits parse_tpu base64_decode where
  fwd_start: "fwd_run f get_permits parse_tpu base64_decode [] (fwd_init f)"
| fwd_process: "fwd_run f get_permits parse_tpu base64_decode txs st \<Longrightarrow>
     fwd_run f get_permits parse_tpu base64_decode (txs @ [tx]) (process f (fo_source tx) (fo_transaction tx) st)"
| fwd_begin: "fwd_run f get_permits parse_tpu base64_decode txs st \<Longrightarrow> i < length (fs_tasks st) \<Longrightarrow>
     ft_phase (fs_tasks st ! i) = Spawned \<Longrightarrow>
     task_begin get_permits parse_tpu base64_decode i st = Done st' \<Longrightarrow>
     fwd_run f get_permits parse_tpu base64_decode txs st'"
| fwd_acquire: "fwd_run f get_permits parse_tpu base64_decode txs st \<Longrightarrow> i < length (fs_tasks st) \<Longrightarrow>
     ft_phase (fs_tasks st ! i) = Waiting \<Longrightarrow> 0 < fs_available st \<Longrightarrow>
     fwd_run f get_permits parse_tpu base64_decode txs (task_acquire i st)"
| fwd_finish: "fwd_run f get_permits parse_tpu base64_decode txs st \<Longrightarrow> i < length (fs_tasks st) \<Longrightarrow>
     ft_phase (fs_tasks st ! i) = Sending \<Longrightarrow>
     fwd_run f get_permits parse_tpu base64_decode txs (task_finish i ok st)"

section \<open>Accounting\<close>

definition counted :: "client_metric \<Rightarrow> string \<Rightarrow> fwd_state \<Rightarrow> nat" where
  "counted m s st = count_list (fs_ops st) (Count m s)"

definition in_phase :: "task_phase \<Rightarrow> fwd_state \<Rightarrow> nat" where
  "in_phase p st = length (filter (\<lambda>t. ft_phase t = p) (fs_tasks st))"

definition ended_for :: "string \<Rightarrow> fwd_state \<Rightarrow> nat" where
  "ended_for s st = length (filter (\<lambda>t. ft_phase t = Ended \<and> ft_source t = s) (fs_tasks st))"

text \<open>What the tasks of a forwarder are: one per transaction and target.\<close>

fun targets :: "'cert transaction_forwarder \<Rightarrow> forwarded_transaction \<Rightarrow> string option list" where
  "targets (Quic _ _) tx = map Some (tr_tpu (fo_transaction tx))"
| "targets (Rpc _ _) tx = [None]"
| "targets Blackhole tx = []"

definition jobs :: "'cert transaction_forwarder \<Rightarrow> forwarded_transaction list \<Rightarrow>
    (string \<times> pb_transaction \<times> string option) list" where
  "jobs f txs = concat (map (\<lambda>tx. map (\<lambda>t. (fo_source tx, fo_transaction tx, t)) (targets f tx)) txs)"

definition task_job :: "fwd_task \<Rightarrow> string \<times> pb_transaction \<times> string option" where
  "task_job t = (ft_source t, ft_transaction t, ft_tpu t)"

definition from_source :: "string \<Rightarrow> forwarded_transaction list \<Rightarrow> nat" where
  "from_source s txs = length (filter (\<lambda>tx. fo_source tx = s) txs)"

definition permits :: "'cert transaction_forwarder \<Rightarrow> nat" where
  "permits f = fs_max_permits (fwd_init f)"

definition fwd_inv :: "'cert transaction_forwarder \<Rightarrow> forwarded_transaction list \<Rightarrow> fwd_state \<Rightarrow> bool" where
  "fwd_inv f txs st \<longleftrightarrow>
     fs_max_permits st = permits f \<and> fs_available st + in_phase Sending st = permits f \<and>
     map task_job (fs_tasks st) = jobs f txs \<and>
     (\<forall>s. counted TX_RECEIVED_COUNT s st = from_source s txs \<and>
          counted TX_FORWARD_SUCCEEDED_COUNT s st + counted TX_FORWARD_FAILED_COUNT s st =
            (case f of Blackhole \<Rightarrow> from_source s txs | _ \<Rightarrow> ended_for s st))"

lemma count_op_simps [simp]:
  "fs_tasks (count_op m s st) = fs_tasks st" "fs_available (count_op m s st) = fs_available st"
  "fs_max_permits (count_op m s st) = fs_max_permits st"
  "counted m' s' (count_op m s st) = counted m' s' st + (if m' = m \<and> s' = s then 1 else 0)"
  "in_phase p (count_op m s st) = in_phase p st" "ended_for s' (count_op m s st) = ended_for s' st"
  by (simp_all add: count_op_def counted_def in_phase_def ended_for_def)

lemma spawn_simps [simp]:
  "fs_available (spawn_transaction_forwarder s tx t st) = fs_available st"
  "fs_max_permits (spawn_transaction_forwarder s tx t st) = fs_max_permits st"
  "counted m s' (spawn_transaction_forwarder s tx t st) = counted m s' st"
  "in_phase p (spawn_transaction_forwarder s tx t st) = in_phase p st + (if p = Spawned then 1 else 0)"
  "ended_for s' (spawn_transaction_forwarder s tx t st) = ended_for s' st"
  "map task_job (fs_tasks (spawn_transaction_forwarder s tx t st)) = map task_job (fs_tasks st) @ [(s, tx, t)]"
  by (simp_all add: spawn_transaction_forwarder_def counted_def in_phase_def ended_for_def task_job_def)

lemma fold_spawn_simps [simp]:
  fixes st :: fwd_state and ts :: "string list" and s :: string and tx :: pb_transaction
  defines "fs \<equiv> \<lambda>st. fold (\<lambda>t. spawn_transaction_forwarder s tx (Some t)) ts st"
  shows "fs_available (fs st) = fs_available st" "fs_max_permits (fs st) = fs_max_permits st"
    "counted m s' (fs st) = counted m s' st" "ended_for s' (fs st) = ended_for s' st"
    "p \<noteq> Spawned \<Longrightarrow> in_phase p (fs st) = in_phase p st"
    "map task_job (fs_tasks (fs st)) = map task_job (fs_tasks st) @ map (\<lambda>t. (s, tx, Some t)) ts"
  unfolding fs_def by (induction ts arbitrary: st) simp_all

lemma set_phase_simps [simp]:
  "fs_available (set_phase i p st) = fs_available st" "fs_max_permits (set_phase i p st) = fs_max_permits st"
  "fs_ops (set_phase i p st) = fs_ops st" "counted m s (set_phase i p st) = counted m s st"
  by (simp_all add: set_phase_def counted_def)

lemma set_phase_jobs [simp]: "map task_job (fs_tasks (set_phase i p st)) = map task_job (fs_tasks st)"
  by (cases "i < length (fs_tasks st)")
     (simp_all add: set_phase_def map_update task_job_def list_update_same_conv list_update_beyond)

lemma in_phase_set:
  "i < length (fs_tasks st) \<Longrightarrow> in_phase q (set_phase i p st) + (if ft_phase (fs_tasks st ! i) = q then 1 else 0) =
     in_phase q st + (if p = q then 1 else 0)"
  using length_filter_update [of i "fs_tasks st" "\<lambda>t. ft_phase t = q"] by (simp add: in_phase_def set_phase_def)

lemma ended_for_set:
  "i < length (fs_tasks st) \<Longrightarrow>
     ended_for s (set_phase i p st) + (if ft_phase (fs_tasks st ! i) = Ended \<and> ft_source (fs_tasks st ! i) = s then 1 else 0) =
     ended_for s st + (if p = Ended \<and> ft_source (fs_tasks st ! i) = s then 1 else 0)"
  using length_filter_update [of i "fs_tasks st" "\<lambda>t. ft_phase t = Ended \<and> ft_source t = s"]
  by (simp add: ended_for_def set_phase_def)

lemma state_upd_simps [simp]:
  "in_phase p (st\<lparr>fs_available := n\<rparr>) = in_phase p st" "ended_for s (st\<lparr>fs_available := n\<rparr>) = ended_for s st"
  "counted m s (st\<lparr>fs_available := n\<rparr>) = counted m s st"
  "in_phase p (st\<lparr>fs_ops := ops\<rparr>) = in_phase p st" "ended_for s (st\<lparr>fs_ops := ops\<rparr>) = ended_for s st"
  by (simp_all add: in_phase_def ended_for_def counted_def)

lemma fwd_inv_init: "fwd_inv f [] (fwd_init f)"
  by (cases f)
     (simp_all add: fwd_inv_def fwd_init_def permits_def in_phase_def jobs_def counted_def from_source_def ended_for_def)

lemma fwd_inv_process:
  "fwd_inv f txs st \<Longrightarrow> fwd_inv f (txs @ [tx]) (process f (fo_source tx) (fo_transaction tx) st)"
  by (cases f) (auto simp: fwd_inv_def jobs_def from_source_def)

lemma task_begin_Done:
  assumes "task_begin get_permits parse_tpu base64_decode i st = Done st'"
  obtains ops where "st' = set_phase i Waiting (st\<lparr>fs_ops := ops\<rparr>)"
    "\<And>m s. count_list ops (Count m s) = count_list (fs_ops st) (Count m s)"
proof (cases "ft_tpu (fs_tasks st ! i)")
  case None
  with assms show thesis using that [of "fs_ops st"] by (simp add: task_begin_def)
next
  case (Some tpu)
  with assms show thesis
    by (intro that [of "fs_ops st @ [Permits_set (max (get_permits (fs_ops st))
          (as_i64 (usize_as_u64 (fs_max_permits st - fs_available st))))]"])
       (auto simp: task_begin_def Let_def observe_quic_forwarded_available_permits_def split: option.splits)
qed

lemma fwd_inv_begin:
  assumes "fwd_inv f txs st" and i: "i < length (fs_tasks st)" and ph: "ft_phase (fs_tasks st ! i) = Spawned"
    and "task_begin get_permits parse_tpu base64_decode i st = Done st'"
  shows "fwd_inv f txs st'"
proof -
  from assms(4) obtain ops where st': "st' = set_phase i Waiting (st\<lparr>fs_ops := ops\<rparr>)"
    and ops: "\<And>m s. count_list ops (Count m s) = count_list (fs_ops st) (Count m s)"
    by (rule task_begin_Done) blast
  have "in_phase Sending st' = in_phase Sending st" "ended_for s st' = ended_for s st" for s
    using in_phase_set [of i "st\<lparr>fs_ops := ops\<rparr>" Sending Waiting] ended_for_set [of i "st\<lparr>fs_ops := ops\<rparr>" s Waiting] i ph
    by (simp_all add: st')
  moreover have "counted m s st' = counted m s st" for m s
    using ops by (simp add: st' counted_def)
  ultimately show ?thesis using assms(1) by (cases f) (simp_all add: fwd_inv_def st')
qed

lemma fwd_inv_acquire:
  assumes "fwd_inv f txs st" and i: "i < length (fs_tasks st)" and ph: "ft_phase (fs_tasks st ! i) = Waiting"
    and "0 < fs_available st"
  shows "fwd_inv f txs (task_acquire i st)"
  using assms(1,4) in_phase_set [OF i, of Sending Sending] ended_for_set [OF i, of _ Sending] ph
  by (cases f) (simp_all add: fwd_inv_def task_acquire_def)

lemma fwd_inv_finish:
  assumes "fwd_inv f txs st" and i: "i < length (fs_tasks st)" and ph: "ft_phase (fs_tasks st ! i) = Sending"
  shows "fwd_inv f txs (task_finish i ok st)"
proof -
  let ?src = "ft_source (fs_tasks st ! i)"
  let ?st = "handle_send_result ?src ok st"
  have tasks: "fs_tasks ?st = fs_tasks st" by (simp add: handle_send_result_def)
  have "jobs f txs = []" if "f = Blackhole" using that by (induction txs) (simp_all add: jobs_def)
  with assms(1) i have "f \<noteq> Blackhole" by (auto simp: fwd_inv_def)
  moreover have "in_phase Sending (set_phase i Ended ?st) + 1 = in_phase Sending st"
    using in_phase_set [of i ?st Sending Ended] i ph tasks by (simp add: handle_send_result_def)
  moreover have "ended_for s (set_phase i Ended ?st) = ended_for s st + (if s = ?src then 1 else 0)" for s
    using ended_for_set [of i ?st s Ended] i ph tasks by (simp add: handle_send_result_def)
  ultimately show ?thesis
    using assms(1) by (cases f) (auto simp: fwd_inv_def task_finish_def Let_def handle_send_result_def)
qed

lemma fwd_run_inv: "fwd_run f get_permits parse_tpu base64_decode txs st \<Longrightarrow> fwd_inv f txs st"
  by (induction rule: fwd_run.induct)
     (auto intro: fwd_inv_init fwd_inv_process fwd_inv_begin fwd_inv_acquire fwd_inv_finish)

lemma jobs_for_source:
  "length (filter (\<lambda>j. fst j = s) (jobs f txs)) =
     sum_list (map (\<lambda>tx. if fo_source tx = s then length (targets f tx) else 0) txs)"
  by (induction txs) (auto simp: jobs_def comp_def)

lemma ended_for_all:
  assumes "\<forall>t \<in> set (fs_tasks st). ft_phase t = Ended" and "map task_job (fs_tasks st) = js"
  shows "ended_for s st = length (filter (\<lambda>j. fst j = s) js)"
proof -
  have "filter (\<lambda>t. ft_phase t = Ended \<and> ft_source t = s) (fs_tasks st) = filter (\<lambda>t. fst (task_job t) = s) (fs_tasks st)"
    using assms(1) by (intro filter_cong) (auto simp: task_job_def)
  then show ?thesis by (simp add: ended_for_def assms(2) [symmetric] filter_map comp_def)
qed

lemma quic_process_targets:
  assumes "t \<in> set (tr_tpu tx)"
  shows "Some t \<in> ft_tpu ` set (fs_tasks (process (Quic n cert) source tx st))"
proof -
  let ?P = "process (Quic n cert) source tx st"
  have jobs: "map task_job (fs_tasks ?P) = map task_job (fs_tasks st) @ map (\<lambda>t. (source, tx, Some t)) (tr_tpu tx)"
    by simp
  have "(source, tx, Some t) \<in> set (map task_job (fs_tasks ?P))"
    unfolding jobs using assms by simp
  then have "(source, tx, Some t) \<in> task_job ` set (fs_tasks ?P)" unfolding set_map .
  then obtain task where task: "(source, tx, Some t) = task_job task" "task \<in> set (fs_tasks ?P)" by (rule imageE)
  from task(1) have "Some t = ft_tpu task" unfolding task_job_def by simp
  then show ?thesis using task(2) by (rule image_eqI)
qed

section \<open>Properties\<close>

text \<open>
  C26. The forwarder's accounts. However its tasks interleave, a forwarder never has more sends in
  flight than permits, returns every permit, counts each transaction once as received under the
  server it came from, and counts each finished send exactly once as succeeded or failed. Its tasks
  are one per TPU address of a transaction (QUIC) or one per transaction (RPC), in order; so once
  all tasks have ended, the successes and failures of a source add up to the number of its targets.
\<close>

theorem forwarder_accounts:
  assumes "fwd_run f get_permits parse_tpu base64_decode txs st"
  shows "in_phase Sending st \<le> fs_max_permits (fwd_init f) \<and>
     fs_available st + in_phase Sending st = fs_max_permits (fwd_init f) \<and>
     map (\<lambda>t. (ft_source t, ft_transaction t, ft_tpu t)) (fs_tasks st) =
       concat (map (\<lambda>tx. map (\<lambda>t. (fo_source tx, fo_transaction tx, t)) (targets f tx)) txs) \<and>
     count_list (fs_ops st) (Count TX_RECEIVED_COUNT s) = length (filter (\<lambda>tx. fo_source tx = s) txs) \<and>
     ((\<forall>t \<in> set (fs_tasks st). ft_phase t = Ended) \<longrightarrow>
        count_list (fs_ops st) (Count TX_FORWARD_SUCCEEDED_COUNT s) + count_list (fs_ops st) (Count TX_FORWARD_FAILED_COUNT s) =
        sum_list (map (\<lambda>tx. if fo_source tx = s
          then (case f of Quic _ _ \<Rightarrow> length (tr_tpu (fo_transaction tx)) | _ \<Rightarrow> 1) else 0) txs))"
proof -
  have inv: "fwd_inv f txs st" by (rule fwd_run_inv [OF assms])
  have one: "length (filter (\<lambda>tx. fo_source tx = s) txs) = sum_list (map (\<lambda>tx. if fo_source tx = s then 1 else 0) txs)"
    by (induction txs) auto
  have "counted TX_FORWARD_SUCCEEDED_COUNT s st + counted TX_FORWARD_FAILED_COUNT s st =
        sum_list (map (\<lambda>tx. if fo_source tx = s
          then (case f of Quic _ _ \<Rightarrow> length (tr_tpu (fo_transaction tx)) | _ \<Rightarrow> 1) else 0) txs)"
    if all: "\<forall>t \<in> set (fs_tasks st). ft_phase t = Ended"
    using inv ended_for_all [OF all refl, of s] jobs_for_source [of s f txs] one
    by (cases f) (simp_all add: fwd_inv_def from_source_def cong: if_cong)
  with inv show ?thesis
    by (auto simp: fwd_inv_def permits_def counted_def from_source_def jobs_def task_job_def [abs_def])
qed

text \<open>A run of the QUIC forwarder with one transaction for two addresses, for the witness.\<close>

definition tx_two :: forwarded_transaction where
  "tx_two = \<lparr>fo_source = ''srv'', fo_transaction = \<lparr>tr_data = ''d'', tr_signature = ''s'', tr_tpu = [''x'', ''y'']\<rparr>\<rparr>"

theorem forwarder_accounts_witness:
  "map ft_tpu (fs_tasks (process (Quic 1 (None :: unit option) :: unit transaction_forwarder) ''srv''
       (fo_transaction tx_two) (fwd_init (Quic 1 (None :: unit option) :: unit transaction_forwarder)))) =
     [Some ''x'', Some ''y'']"
proof -
  let ?f = "Quic 1 None :: unit transaction_forwarder"
  let ?st = "process ?f (fo_source tx_two) (fo_transaction tx_two) (fwd_init ?f)"
  have "fwd_run ?f (\<lambda>_. 0) Some Some ([] @ [tx_two]) ?st" by (intro fwd_process fwd_start)
  from forwarder_accounts [OF this]
  have "map (\<lambda>t. (ft_source t, ft_transaction t, ft_tpu t)) (fs_tasks ?st) =
      [(''srv'', fo_transaction tx_two, Some ''x''), (''srv'', fo_transaction tx_two, Some ''y'')]"
    by (simp add: tx_two_def)
  from arg_cong [OF this, of "map (\<lambda>j. snd (snd j))"] show ?thesis by (simp add: comp_def tx_two_def)
qed

end
