(* ===== verification/Grpc_Client.thy ===== *)
theory Grpc_Client
  imports Client_Forwarder
begin

text \<open>
  \<^verbatim>\<open>client/grpc_client.rs\<close>, the metrics feeder of \<^verbatim>\<open>client/metrics.rs\<close> and the reconnect loop
  of \<^verbatim>\<open>client/main.rs\<close>: one stream to one server. The two unbounded queues (messages to the
  server, transactions to the forwarder) are lists; sending on one fails only if its receiver is
  gone, and then the message is dropped. Connecting, TLS files and the clock are parameters.
\<close>

section \<open>Messages from the server\<close>

record stream_queues =
  sq_upstream :: "request_envelope list"
  sq_transactions :: "forwarded_transaction list"

definition empty_request :: request_envelope where
  "empty_request = \<lparr>rq_pong = None, rq_metrics = None, rq_rtt = None\<rparr>"

definition process_ping :: "bool \<Rightarrow> string \<Rightarrow> stream_queues \<Rightarrow> stream_queues" where
  "process_ping up_open ping_id q =
     (if up_open then q\<lparr>sq_upstream := sq_upstream q @ [empty_request\<lparr>rq_pong := Some ping_id\<rparr>]\<rparr> else q)"

definition process_transaction :: "bool \<Rightarrow> forwarded_transaction \<Rightarrow> stream_queues \<Rightarrow> stream_queues" where
  "process_transaction tx_open tx q =
     (if tx_open then q\<lparr>sq_transactions := sq_transactions q @ [tx]\<rparr> else q)"

definition process_upstream_message ::
  "bool \<Rightarrow> bool \<Rightarrow> string \<Rightarrow> string + response_envelope \<Rightarrow> stream_queues \<Rightarrow> stream_queues" where
  "process_upstream_message up_open tx_open source response q =
     (case response of
        Inr env \<Rightarrow>
          (let q' = (case rs_ping env of Some ping_id \<Rightarrow> process_ping up_open ping_id q | None \<Rightarrow> q)
           in case rs_transaction env of
                Some tx \<Rightarrow> process_transaction tx_open \<lparr>fo_source = source, fo_transaction = tx\<rparr> q'
              | None \<Rightarrow> q')
      | Inl err \<Rightarrow> q)"

section \<open>The stream\<close>

datatype stream_event =
    Metrics_recv "request_envelope option"
  | Response_recv "(string + response_envelope) option"

text \<open>\<open>None\<close> as a result: the loop is still waiting for events.\<close>

fun stream_loop ::
  "bool \<Rightarrow> bool \<Rightarrow> string \<Rightarrow> stream_event list \<Rightarrow> stream_queues \<Rightarrow> (string + unit) option \<times> stream_queues" where
  "stream_loop up_open tx_open source [] q = (None, q)"
| "stream_loop up_open tx_open source (Metrics_recv m # evs) q =
     (case m of
        Some msg \<Rightarrow>
          stream_loop up_open tx_open source evs (if up_open then q\<lparr>sq_upstream := sq_upstream q @ [msg]\<rparr> else q)
      | None \<Rightarrow> (Some (Inr ()), q))"
| "stream_loop up_open tx_open source (Response_recv r # evs) q =
     (case r of
        Some response \<Rightarrow>
          stream_loop up_open tx_open source evs (process_upstream_message up_open tx_open source response q)
      | None \<Rightarrow> (Some (Inl ''Upstream closed''), q))"

text \<open>Opening the stream unwraps the server's answer.\<close>

definition mtx_stream ::
  "bool \<Rightarrow> bool \<Rightarrow> string + unit \<Rightarrow> string \<Rightarrow> stream_event list \<Rightarrow> stream_queues \<Rightarrow>
   ((string + unit) option \<times> stream_queues) outcome" where
  "mtx_stream up_open tx_open opened source evs q =
     (case opened of
        Inl status \<Rightarrow> Panic ''called `Result::unwrap()` on an `Err` value''
      | Inr _ \<Rightarrow> Done (stream_loop up_open tx_open source evs q))"

section \<open>Connecting\<close>

record client_tls_config =
  ct_ca_certificate :: string
  ct_domain_name :: string
  ct_identity :: "string \<times> string"

definition client_get_tls_config ::
  "(string \<Rightarrow> string + string) \<Rightarrow> string option \<Rightarrow> string option \<Rightarrow> string option \<Rightarrow>
   string + client_tls_config option" where
  "client_get_tls_config read_file tls_ca_cert tls_client_key tls_client_cert =
     (case (tls_ca_cert, tls_client_key, tls_client_cert) of
        (Some ca, Some key, Some cert) \<Rightarrow>
          (case read_file ca of Inl err \<Rightarrow> Inl err | Inr ca_pem \<Rightarrow>
          (case read_file cert of Inl err \<Rightarrow> Inl err | Inr cert_pem \<Rightarrow>
          (case read_file key of Inl err \<Rightarrow> Inl err | Inr key_pem \<Rightarrow>
             Inr (Some \<lparr>ct_ca_certificate = ca_pem, ct_domain_name = ''localhost'', ct_identity = (cert_pem, key_pem)\<rparr>))))
      | _ \<Rightarrow> Inr None)"

text \<open>\<open>connect\<close> builds the channel, with or without TLS, and connects it.\<close>

definition spawn_grpc_client ::
  "(string \<Rightarrow> string + string) \<Rightarrow> (client_tls_config option \<Rightarrow> string + unit) \<Rightarrow> string + unit \<Rightarrow>
   string option \<Rightarrow> string option \<Rightarrow> string option \<Rightarrow> string option \<Rightarrow> stream_event list \<Rightarrow> stream_queues \<Rightarrow>
   ((string + unit) option \<times> stream_queues) outcome" where
  "spawn_grpc_client read_file connect opened host tls_grpc_ca_cert tls_grpc_client_key tls_grpc_client_cert evs q =
     (case client_get_tls_config read_file tls_grpc_ca_cert tls_grpc_client_key tls_grpc_client_cert of
        Inl err \<Rightarrow> Done (Some (Inl err), q)
      | Inr tls \<Rightarrow>
          (case connect tls of
             Inl err \<Rightarrow> Done (Some (Inl err), q)
           | Inr _ \<Rightarrow> mtx_stream True True opened (case host of Some h \<Rightarrow> h | None \<Rightarrow> ''unknown'') evs q))"

section \<open>Reconnecting\<close>

definition GRPC_RECONNECT_DELAY :: u64 where
  "GRPC_RECONNECT_DELAY = 1000"

definition GRPC_RECONNECT_MAX_DELAY :: u64 where
  "GRPC_RECONNECT_MAX_DELAY = 60000"

definition retry_delay :: "u64 \<Rightarrow> u64" where
  "retry_delay retry = min GRPC_RECONNECT_MAX_DELAY (GRPC_RECONNECT_DELAY * retry)"

text \<open>
  The loop over the results of successive attempts: the delays slept, and whether it ended.
\<close>

fun retry_loop :: "u64 \<Rightarrow> (string + unit) list \<Rightarrow> u64 list \<times> bool" where
  "retry_loop retry [] = ([], False)"
| "retry_loop retry (Inr _ # results) = ([], True)"
| "retry_loop retry (Inl err # results) =
     (let (ds, fin) = retry_loop (retry + 1) results in (retry_delay (retry + 1) # ds, fin))"

section \<open>The metrics feeder\<close>

definition VERSION :: string where
  "VERSION = ''rust-0.0.14-beta''"

text \<open>
  One round: the message offered to the stream, and the reset of the permits gauge; \<open>None\<close> once
  the stream has closed its end. \<open>get_counter\<close> and \<open>get_permits\<close> read the metrics.
\<close>

definition feeder_round ::
  "(client_op list \<Rightarrow> client_metric \<Rightarrow> string \<Rightarrow> u64) \<Rightarrow> (client_op list \<Rightarrow> int) \<Rightarrow> bool \<Rightarrow> u64 option \<Rightarrow>
   string \<Rightarrow> client_op list \<Rightarrow> (request_envelope \<times> client_op list) option" where
  "feeder_round get_counter get_permits closed memory source ops =
     (if closed then None
      else Some (empty_request\<lparr>rq_metrics := Some
             \<lparr>pm_tx_received = get_counter ops TX_RECEIVED_COUNT source,
              pm_tx_forward_succeeded = get_counter ops TX_FORWARD_SUCCEEDED_COUNT source,
              pm_tx_forward_failed = get_counter ops TX_FORWARD_FAILED_COUNT source,
              pm_version = VERSION,
              pm_quic_forwarder_permits_used_max = word_of_int (get_permits ops),
              pm_memory_physical = (case memory of Some n \<Rightarrow> n | None \<Rightarrow> 0)\<rparr>\<rparr>,
            ops @ [Permits_set 0]))"

section \<open>Lemmas\<close>

fun terminal :: "stream_event \<Rightarrow> bool" where
  "terminal (Metrics_recv m) \<longleftrightarrow> m = None"
| "terminal (Response_recv r) \<longleftrightarrow> r = None"

text \<open>What one event adds to the queues, and how a terminal event ends the stream.\<close>

fun upstream_of :: "stream_event \<Rightarrow> request_envelope list" where
  "upstream_of (Metrics_recv (Some m)) = [m]"
| "upstream_of (Response_recv (Some (Inr env))) =
     (case rs_ping env of Some p \<Rightarrow> [empty_request\<lparr>rq_pong := Some p\<rparr>] | None \<Rightarrow> [])"
| "upstream_of _ = []"

fun transactions_of :: "string \<Rightarrow> stream_event \<Rightarrow> forwarded_transaction list" where
  "transactions_of source (Response_recv (Some (Inr env))) =
     (case rs_transaction env of Some tx \<Rightarrow> [\<lparr>fo_source = source, fo_transaction = tx\<rparr>] | None \<Rightarrow> [])"
| "transactions_of source _ = []"

fun ending :: "stream_event list \<Rightarrow> (string + unit) option" where
  "ending [] = None"
| "ending (Metrics_recv _ # _) = Some (Inr ())"
| "ending (Response_recv _ # _) = Some (Inl ''Upstream closed'')"

lemma process_upstream_message_open:
  "process_upstream_message True True source r q =
     \<lparr>sq_upstream = sq_upstream q @ upstream_of (Response_recv (Some r)),
      sq_transactions = sq_transactions q @ transactions_of source (Response_recv (Some r))\<rparr>"
  by (cases r) (auto simp: process_upstream_message_def process_ping_def process_transaction_def split: option.splits)

lemma stream_loop_conv:
  "stream_loop True True source evs q =
     (ending (dropWhile (\<lambda>e. \<not> terminal e) evs),
      \<lparr>sq_upstream = sq_upstream q @ concat (map upstream_of (takeWhile (\<lambda>e. \<not> terminal e) evs)),
       sq_transactions = sq_transactions q @ concat (map (transactions_of source) (takeWhile (\<lambda>e. \<not> terminal e) evs))\<rparr>)"
proof (induction evs arbitrary: q)
  case (Cons ev evs)
  show ?case
  proof (cases ev)
    case (Metrics_recv m)
    with Cons show ?thesis by (cases m) simp_all
  next
    case (Response_recv r)
    with Cons show ?thesis by (cases r) (simp_all add: process_upstream_message_open)
  qed
qed simp

lemma retry_loop_delays:
  "fst (retry_loop retry (map Inl errs)) = map (\<lambda>i. retry_delay (retry + word_of_nat (Suc i))) [0..<length errs]"
proof (induction errs arbitrary: retry)
  case (Cons e errs)
  have "map (\<lambda>i. retry_delay (retry + word_of_nat (Suc i))) [0..<Suc (length errs)] =
      retry_delay (retry + 1) # map (\<lambda>i. retry_delay (retry + 1 + word_of_nat (Suc i))) [0..<length errs]"
    by (simp add: upt_conv_Cons map_Suc_upt [symmetric] add.assoc del: upt_Suc)
  with Cons [of "retry + 1"] show ?case by (simp add: Let_def case_prod_beta del: upt_Suc)
qed simp

lemma retry_delay_value:
  assumes "n < 2 ^ 50"
  shows "unat (retry_delay (word_of_nat n)) = min 60000 (1000 * n)"
proof -
  have "unat (word_of_nat n :: u64) = n" using assms by (simp add: unat_of_nat)
  with assms have "unat (GRPC_RECONNECT_DELAY * word_of_nat n) = 1000 * n"
    by (simp add: GRPC_RECONNECT_DELAY_def unat_mult_no_wrap)
  then show ?thesis by (simp add: retry_delay_def GRPC_RECONNECT_MAX_DELAY_def min_def word_le_nat_alt)
qed

section \<open>Properties\<close>

text \<open>
  C27. What a stream relays. A stream the server refuses to open panics, which ends the whole client
  process. An open stream handles events up to the first end of the metrics or of the server's
  messages: until then every metrics message and one pong per ping, with the ping's id, go to the
  server, and every transaction goes to the forwarder with the server it came from, each queue in
  order and nothing else; errors from the server are skipped. The stream ends with an error, so that
  the client reconnects, exactly when the server's messages ended first.
\<close>

theorem stream_relays_in_order:
  "mtx_stream True True (Inr ()) source evs q =
     Done (case dropWhile (\<lambda>e. \<not> terminal e) evs of
             [] \<Rightarrow> None
           | Metrics_recv _ # _ \<Rightarrow> Some (Inr ())
           | Response_recv _ # _ \<Rightarrow> Some (Inl ''Upstream closed''),
           \<lparr>sq_upstream = sq_upstream q @ concat (map upstream_of (takeWhile (\<lambda>e. \<not> terminal e) evs)),
            sq_transactions = sq_transactions q @ concat (map (transactions_of source) (takeWhile (\<lambda>e. \<not> terminal e) evs))\<rparr>) \<and>
   (\<exists>e. mtx_stream up_open tx_open (Inl status) source evs q = Panic e)"
proof -
  have "ending es = (case es of [] \<Rightarrow> None | Metrics_recv _ # _ \<Rightarrow> Some (Inr ())
      | Response_recv _ # _ \<Rightarrow> Some (Inl ''Upstream closed''))" for es
    by (cases es rule: ending.cases) simp_all
  then show ?thesis by (simp add: mtx_stream_def stream_loop_conv)
qed

text \<open>
  The reconnect delays. After consecutive failures the client waits one second longer each time,
  up to sixty seconds, and the loop ends at the first stream that ends without an error.
\<close>

theorem reconnect_backoff_linear_capped:
  assumes "length errs < 2 ^ 50"
  shows "map unat (fst (retry_loop 0 (map Inl errs @ rest))) =
       map (\<lambda>i. min 60000 (1000 * i)) [1..<Suc (length errs)] @
       map unat (fst (retry_loop (word_of_nat (length errs)) rest)) \<and>
     retry_loop retry (Inr () # rest) = ([], True)"
proof -
  have app: "fst (retry_loop r (map Inl es @ rest)) =
      fst (retry_loop r (map Inl es)) @ fst (retry_loop (r + word_of_nat (length es)) rest)" for r and es :: "string list"
    by (induction es arbitrary: r) (simp_all add: Let_def case_prod_beta add.assoc)
  have "map unat (fst (retry_loop 0 (map Inl errs))) =
      map (\<lambda>i. unat (retry_delay (word_of_nat (Suc i)))) [0..<length errs]"
    by (simp add: retry_loop_delays del: of_nat_Suc)
  also have "\<dots> = map (\<lambda>i. min 60000 (1000 * Suc i)) [0..<length errs]"
    using assms by (intro map_cong refl) (simp add: retry_delay_value del: of_nat_Suc)
  also have "\<dots> = map (\<lambda>i. min 60000 (1000 * i)) [1..<Suc (length errs)]"
    by (simp add: map_Suc_upt [symmetric] del: upt_Suc)
  finally show ?thesis by (simp add: app del: upt_Suc)
qed

theorem reconnect_backoff_linear_capped_witness:
  "map unat (fst (retry_loop 0 (map Inl [''refused'', ''closed''] @ [Inr ()]))) = [1000, 2000]"
proof -
  have "length [''refused'', ''closed''] < 2 ^ 50" by simp
  from reconnect_backoff_linear_capped [OF this, of "[Inr ()]"] show ?thesis
    by (simp add: upt_rec)
qed

end
