(* ===== verification/Client_Main.thy ===== *)
theory Client_Main
  imports Client_Forwarder
begin

text \<open>
  \<^verbatim>\<open>client/main.rs\<close>: the list of servers to connect to and the tasks that keep the connections.
  A task is named by its number of spawning; \<^verbatim>\<open>JoinHandle::abort\<close> stops it, while dropping a
  handle leaves it running. The YAML reader, the file system and URI parsing are parameters.
\<close>

section \<open>The list of servers\<close>

definition read_grpc_urls_from_file ::
  "('path \<Rightarrow> 'file option) \<Rightarrow> ('file \<Rightarrow> string + 'v) \<Rightarrow> ('v \<Rightarrow> 'v list option) \<Rightarrow> ('v \<Rightarrow> string option) \<Rightarrow>
   'path \<Rightarrow> string + string list" where
  "read_grpc_urls_from_file open_file from_reader mtransaction_servers as_str path =
     (case open_file path of
        Some file \<Rightarrow>
          (case from_reader file of
             Inr content \<Rightarrow>
               (case mtransaction_servers content of
                  Some result \<Rightarrow>
                    (let new_urls = map (\<lambda>x. case as_str x of Some url \<Rightarrow> url | None \<Rightarrow> '''') result
                     in Inr (filter (\<lambda>x. x \<noteq> '''') new_urls))
                | None \<Rightarrow> Inl ''No mtransaction_servers found'')
           | Inl e \<Rightarrow> Inl e)
      | None \<Rightarrow> Inl ''No mtransaction_servers found'')"

section \<open>Connection tasks\<close>

record client =
  cl_urls :: "string list"
  cl_tasks :: "(string, nat) hmap"
  cl_spawned :: nat
  cl_aborted :: "nat list"

fun build_tasks :: "(string \<Rightarrow> 'uri option) \<Rightarrow> string list \<Rightarrow> client \<Rightarrow> client outcome" where
  "build_tasks parse_uri [] cl = Done cl"
| "build_tasks parse_uri (url # urls) cl =
     (case parse_uri url of
        None \<Rightarrow> Panic ''failed to parse grpc url''
      | Some uri \<Rightarrow>
          build_tasks parse_uri urls
            (cl\<lparr>cl_tasks := hm_insert url (cl_spawned cl) (cl_tasks cl), cl_spawned := cl_spawned cl + 1\<rparr>))"

fun abort_removed :: "string list \<Rightarrow> client \<Rightarrow> client" where
  "abort_removed [] cl = cl"
| "abort_removed (grpc # rest) cl =
     (case hm_get (cl_tasks cl) grpc of
        Some task \<Rightarrow>
          abort_removed rest (cl\<lparr>cl_tasks := hm_remove grpc (cl_tasks cl), cl_aborted := cl_aborted cl @ [task]\<rparr>)
      | None \<Rightarrow> abort_removed rest cl)"

text \<open>One round of the main loop, for the list sent by the signal handler.\<close>

definition reload :: "(string \<Rightarrow> 'uri option) \<Rightarrow> string list \<Rightarrow> client \<Rightarrow> client outcome" where
  "reload parse_uri new_grpc_urls cl =
     (let urls_to_spawn = filter (\<lambda>x. x \<notin> set (cl_urls cl)) new_grpc_urls;
          cl' = abort_removed (filter (\<lambda>x. x \<notin> set new_grpc_urls) (cl_urls cl)) cl;
          cl'' = cl'\<lparr>cl_urls := new_grpc_urls\<rparr>
      in if urls_to_spawn = [] then Done cl'' else build_tasks parse_uri urls_to_spawn cl'')"

definition client_start :: "(string \<Rightarrow> 'uri option) \<Rightarrow> string + string list \<Rightarrow> client outcome" where
  "client_start parse_uri urls_res =
     (case urls_res of
        Inl e \<Rightarrow> Panic ''failed to read gRPC urls from file''
      | Inr urls \<Rightarrow>
          build_tasks parse_uri urls \<lparr>cl_urls = urls, cl_tasks = [], cl_spawned = 0, cl_aborted = []\<rparr>)"

text \<open>On SIGHUP the list is read again; one that cannot be read is ignored.\<close>

definition handle_sighup :: "(string \<Rightarrow> 'uri option) \<Rightarrow> string + string list \<Rightarrow> client \<Rightarrow> client outcome" where
  "handle_sighup parse_uri urls_res cl =
     (case urls_res of Inr urls \<Rightarrow> reload parse_uri urls cl | Inl e \<Rightarrow> Done cl)"

section \<open>Start of the client\<close>

record client_params =
  cp_tls_grpc_ca_cert :: "string option"
  cp_tls_grpc_client_key :: "string option"
  cp_tls_grpc_client_cert :: "string option"
  cp_grpc_urls_file :: string
  cp_identity :: "string option"
  cp_tpu_addr :: "string option"
  cp_metrics_addr :: string
  cp_rpc_url :: "string option"
  cp_blackhole :: bool
  cp_throttle_parallel :: nat

text \<open>The key pair and the TPU address are used only if both are given.\<close>

definition client_identity ::
  "(string \<Rightarrow> 'k option) \<Rightarrow> (string \<Rightarrow> 'a option) \<Rightarrow> client_params \<Rightarrow> ('k option \<times> 'a option) outcome" where
  "client_identity read_keypair_file parse_ip p =
     (case (cp_identity p, cp_tpu_addr p) of
        (Some identity_path, Some tpu_addr) \<Rightarrow>
          outcome_bind (unwrap (read_keypair_file identity_path)) (\<lambda>k.
          outcome_bind (unwrap (parse_ip tpu_addr)) (\<lambda>a. Done (Some k, Some a)))
      | _ \<Rightarrow> Done (None, None))"

definition client_main ::
  "(string \<Rightarrow> string + string list) \<Rightarrow> (string \<Rightarrow> 'k option) \<Rightarrow> (string \<Rightarrow> 'a option) \<Rightarrow> (string \<Rightarrow> 'addr option) \<Rightarrow>
   (string \<Rightarrow> 'uri option) \<Rightarrow> client_params \<Rightarrow> (('k \<times> 'a) transaction_forwarder \<times> fwd_state \<times> client) outcome" where
  "client_main read_urls read_keypair_file parse_ip parse_addr parse_uri p =
     (case read_urls (cp_grpc_urls_file p) of
        Inl e \<Rightarrow> Panic ''failed to read gRPC urls from file''
      | Inr urls \<Rightarrow>
     outcome_bind (client_identity read_keypair_file parse_ip p) (\<lambda>(k, a).
     outcome_bind (unwrap (parse_addr (cp_metrics_addr p))) (\<lambda>_.
     outcome_bind (spawn_forwarder k a (cp_rpc_url p) (cp_blackhole p) (cp_throttle_parallel p)) (\<lambda>f.
     outcome_bind (client_start parse_uri (Inr urls)) (\<lambda>cl. Done (f, fwd_init f, cl))))))"

text \<open>The client over time: the results of reading the server list, from the start on.\<close>

inductive client_run :: "(string \<Rightarrow> 'uri option) \<Rightarrow> (string + string list) list \<Rightarrow> client \<Rightarrow> bool"
  for parse_uri where
  client_run_start: "client_start parse_uri r = Done cl \<Longrightarrow> client_run parse_uri [r] cl"
| client_run_sighup: "client_run parse_uri rs cl \<Longrightarrow> handle_sighup parse_uri r cl = Done cl' \<Longrightarrow>
     client_run parse_uri (rs @ [r]) cl'"

fun_cases build_tasks_ConsE: "build_tasks parse_uri (url # urls) cl = Done cl'"

section \<open>The tasks that run\<close>

definition running_tasks :: "client \<Rightarrow> nat set" where
  "running_tasks cl = {0..<cl_spawned cl} - set (cl_aborted cl)"

text \<open>Every handle names a running task, no two the same, and they are filed under the listed servers.\<close>

definition handles_ok :: "client \<Rightarrow> bool" where
  "handles_ok cl \<longleftrightarrow> hm_ok (cl_tasks cl) \<and> snd ` set (cl_tasks cl) \<subseteq> running_tasks cl \<and>
     distinct (map snd (cl_tasks cl)) \<and> set (cl_aborted cl) \<subseteq> {0..<cl_spawned cl}"

definition no_leak :: "client \<Rightarrow> bool" where
  "no_leak cl \<longleftrightarrow> running_tasks cl \<subseteq> snd ` set (cl_tasks cl)"

lemma snd_hm_insert: "snd ` set (hm_insert k v m) \<subseteq> insert v (snd ` set m)"
  by (induction k v m rule: hm_insert.induct) auto

lemma distinct_snd_hm_insert:
  "distinct (map snd m) \<Longrightarrow> v \<notin> snd ` set m \<Longrightarrow> distinct (map snd (hm_insert k v m))"
proof (induction k v m rule: hm_insert.induct)
  case (2 k v k' v' m)
  with snd_hm_insert [of k v m] show ?case by auto
qed simp

lemma distinct_snd_hm_remove: "distinct (map snd m) \<Longrightarrow> distinct (map snd (hm_remove k m))"
  by (auto simp: hm_remove_def distinct_map inj_on_def)

lemma build_tasks_spec:
  assumes "build_tasks parse_uri urls cl = Done cl'" and "handles_ok cl"
  shows "handles_ok cl' \<and> cl_urls cl' = cl_urls cl \<and> cl_aborted cl' = cl_aborted cl \<and>
     fst ` set (cl_tasks cl') = fst ` set (cl_tasks cl) \<union> set urls \<and>
     (\<forall>u. u \<notin> set urls \<longrightarrow> hm_get (cl_tasks cl') u = hm_get (cl_tasks cl) u) \<and>
     (\<forall>u \<in> set urls. parse_uri u \<noteq> None) \<and>
     (no_leak cl \<and> distinct urls \<and> set urls \<inter> fst ` set (cl_tasks cl) = {} \<longrightarrow> no_leak cl')"
  using assms
proof (induction urls arbitrary: cl)
  case (Cons u us)
  let ?cl = "cl\<lparr>cl_tasks := hm_insert u (cl_spawned cl) (cl_tasks cl), cl_spawned := cl_spawned cl + 1\<rparr>"
  from Cons.prems(1) have parse: "parse_uri u \<noteq> None" and rest: "build_tasks parse_uri us ?cl = Done cl'"
    by (auto elim!: build_tasks_ConsE split: option.splits)
  have ok: "hm_ok (cl_tasks cl)" and fresh: "cl_spawned cl \<notin> snd ` set (cl_tasks cl)"
    using Cons.prems(2) by (auto simp: handles_ok_def running_tasks_def)
  have run: "running_tasks ?cl = insert (cl_spawned cl) (running_tasks cl)"
    using Cons.prems(2) by (auto simp: handles_ok_def running_tasks_def)
  have "snd ` set (cl_tasks ?cl) \<subseteq> running_tasks ?cl"
    using Cons.prems(2) snd_hm_insert [of u "cl_spawned cl" "cl_tasks cl"] unfolding run handles_ok_def by auto
  moreover have "set (cl_aborted ?cl) \<subseteq> {0..<cl_spawned ?cl}"
    using Cons.prems(2) by (auto simp: handles_ok_def)
  ultimately have "handles_ok ?cl"
    using Cons.prems(2) distinct_snd_hm_insert [OF _ fresh] by (simp add: handles_ok_def)
  note IH = Cons.IH [OF rest this]
  have leak: "no_leak ?cl" if "no_leak cl" and "u \<notin> fst ` set (cl_tasks cl)"
  proof -
    have "(cl_spawned cl, u) \<in> (\<lambda>(k, v). (v, k)) ` set (cl_tasks ?cl)" using ok by (force simp: set_hm_insert)
    moreover have "set (cl_tasks cl) \<subseteq> set (cl_tasks ?cl)" using that(2) ok by (auto simp: set_hm_insert)
    ultimately show ?thesis using that(1) unfolding no_leak_def run by force
  qed
  have "fst ` set (cl_tasks cl') = fst ` set (cl_tasks cl) \<union> set (u # us)"
    using IH by (auto simp: hm_keys_insert)
  moreover have "no_leak cl'" if "no_leak cl" "distinct (u # us)" "set (u # us) \<inter> fst ` set (cl_tasks cl) = {}"
    using IH leak that by (auto simp: hm_keys_insert)
  moreover have "hm_get (cl_tasks cl') v = hm_get (cl_tasks cl) v" if "v \<notin> set (u # us)" for v
    using IH that by simp
  ultimately show ?case using IH parse by simp
qed simp

text \<open>Aborting the task of one server: its handle goes, and with it exactly this task.\<close>

lemma handle_unique:
  assumes "handles_ok cl" and "(g, t) \<in> set (cl_tasks cl)" and "e \<in> set (cl_tasks cl)" and "fst e = g \<or> snd e = t"
  shows "e = (g, t)"
  using assms by (auto simp: handles_ok_def hm_ok_def distinct_map inj_on_def)

lemma running_abort:
  "running_tasks (cl\<lparr>cl_tasks := m, cl_aborted := cl_aborted cl @ [t]\<rparr>) = running_tasks cl - {t}"
  by (auto simp: running_tasks_def)

lemma abort_one:
  fixes cl :: client and g :: string and t :: nat
  defines "cl' \<equiv> cl\<lparr>cl_tasks := hm_remove g (cl_tasks cl), cl_aborted := cl_aborted cl @ [t]\<rparr>"
  assumes hok: "handles_ok cl" and gt: "(g, t) \<in> set (cl_tasks cl)"
  shows "handles_ok cl'"
proof -
  have "snd ` set (cl_tasks cl') \<subseteq> running_tasks cl'"
  proof
    fix x assume "x \<in> snd ` set (cl_tasks cl')"
    then obtain e where e: "e \<in> set (cl_tasks cl)" "fst e \<noteq> g" "x = snd e" by (auto simp: cl'_def set_hm_remove)
    with handle_unique [OF hok gt e(1)] have "x \<noteq> t" by (metis fst_conv)
    with e hok show "x \<in> running_tasks cl'" unfolding cl'_def running_abort by (auto simp: handles_ok_def)
  qed
  moreover have "set (cl_aborted cl') \<subseteq> {0..<cl_spawned cl'}"
    using hok gt by (force simp: cl'_def handles_ok_def running_tasks_def)
  ultimately show ?thesis
    using hok by (simp add: cl'_def handles_ok_def distinct_snd_hm_remove)
qed

lemma removed_handles:
  assumes "handles_ok cl" and "(g, t) \<in> set (cl_tasks cl)"
  shows "snd ` {e \<in> set (cl_tasks cl). fst e \<in> set (g # gs)} =
     insert t (snd ` {e \<in> set (hm_remove g (cl_tasks cl)). fst e \<in> set gs})"
proof -
  have "{e \<in> set (cl_tasks cl). fst e \<in> set (g # gs)} =
      insert (g, t) {e \<in> set (hm_remove g (cl_tasks cl)). fst e \<in> set gs}" (is "?l = ?r")
  proof (rule set_eqI, rule iffI)
    show "e \<in> ?r" if "e \<in> ?l" for e
      using that handle_unique [OF assms, of e] by (cases "fst e = g") (simp_all add: set_hm_remove)
    show "e \<in> ?l" if "e \<in> ?r" for e
      using that assms(2) by (auto simp: set_hm_remove)
  qed
  then show ?thesis by simp
qed

lemma abort_removed_spec:
  assumes "handles_ok cl"
  shows "handles_ok (abort_removed gs cl) \<and> cl_urls (abort_removed gs cl) = cl_urls cl \<and>
     cl_spawned (abort_removed gs cl) = cl_spawned cl \<and>
     cl_tasks (abort_removed gs cl) = filter (\<lambda>e. fst e \<notin> set gs) (cl_tasks cl) \<and>
     running_tasks (abort_removed gs cl) = running_tasks cl - snd ` {e \<in> set (cl_tasks cl). fst e \<in> set gs}"
  using assms
proof (induction gs arbitrary: cl)
  case (Cons g gs)
  show ?case
  proof (cases "hm_get (cl_tasks cl) g")
    case None
    then have "g \<notin> fst ` set (cl_tasks cl)" by (simp add: hm_get_None_iff)
    then have ne: "\<forall>e \<in> set (cl_tasks cl). fst e \<noteq> g" by force
    have "filter (\<lambda>e. fst e \<notin> set (g # gs)) (cl_tasks cl) = filter (\<lambda>e. fst e \<notin> set gs) (cl_tasks cl)"
      using ne by (intro filter_cong) simp_all
    moreover have "{e \<in> set (cl_tasks cl). fst e \<in> set (g # gs)} = {e \<in> set (cl_tasks cl). fst e \<in> set gs}"
      using ne by auto
    ultimately show ?thesis using Cons None by simp
  next
    case (Some t)
    then have gt: "(g, t) \<in> set (cl_tasks cl)" using Cons.prems by (simp add: handles_ok_def hm_get_iff)
    from Cons.IH [OF abort_one [OF Cons.prems gt]] removed_handles [OF Cons.prems gt, of gs] Some show ?thesis
      unfolding running_abort by (auto simp: hm_remove_def conj_commute)
  qed
qed simp

definition client_inv :: "client \<Rightarrow> bool" where
  "client_inv cl \<longleftrightarrow> handles_ok cl \<and> fst ` set (cl_tasks cl) = set (cl_urls cl)"

lemma client_inv_start:
  assumes "client_start parse_uri r = Done cl"
  shows "client_inv cl \<and> (\<forall>urls. r = Inr urls \<longrightarrow> cl_urls cl = urls \<and> (distinct urls \<longrightarrow> no_leak cl))"
proof (cases r)
  case (Inr urls)
  let ?cl = "\<lparr>cl_urls = urls, cl_tasks = [], cl_spawned = 0, cl_aborted = []\<rparr>"
  have "handles_ok ?cl" "no_leak ?cl" by (simp_all add: handles_ok_def no_leak_def running_tasks_def)
  with build_tasks_spec [of parse_uri urls ?cl cl] assms Inr show ?thesis
    by (simp add: client_start_def client_inv_def)
qed (use assms in \<open>simp add: client_start_def\<close>)

lemma reload_spec:
  assumes "client_inv cl" and "reload parse_uri new cl = Done cl'"
  shows "client_inv cl' \<and> cl_urls cl' = new \<and> (no_leak cl \<and> distinct new \<longrightarrow> no_leak cl') \<and>
     (\<forall>u \<in> set (cl_urls cl) \<inter> set new. hm_get (cl_tasks cl') u = hm_get (cl_tasks cl) u) \<and>
     (\<forall>u \<in> set (cl_urls cl) - set new. \<forall>t. hm_get (cl_tasks cl) u = Some t \<longrightarrow> t \<notin> running_tasks cl')"
proof -
  let ?gone = "filter (\<lambda>x. x \<notin> set new) (cl_urls cl)" and ?add = "filter (\<lambda>x. x \<notin> set (cl_urls cl)) new"
  let ?cl1 = "abort_removed ?gone cl"
  let ?cl2 = "?cl1\<lparr>cl_urls := new\<rparr>"
  have hok: "handles_ok cl" and keys: "fst ` set (cl_tasks cl) = set (cl_urls cl)"
    using assms(1) by (simp_all add: client_inv_def)
  note ab = abort_removed_spec [OF hok, of ?gone]
  have "handles_ok (c\<lparr>cl_urls := us\<rparr>) \<longleftrightarrow> handles_ok c" for c us by (simp add: handles_ok_def running_tasks_def)
  with ab have hok2: "handles_ok ?cl2" by blast
  have build: "build_tasks parse_uri ?add ?cl2 = Done cl'"
    using assms(2) by (auto simp: reload_def Let_def split: if_splits)
  note bt = build_tasks_spec [OF build hok2]
  have keys2: "fst ` set (cl_tasks ?cl2) = set (cl_urls cl) \<inter> set new"
    using ab keys by (force simp: image_iff)
  have leak2: "no_leak ?cl2" if "no_leak cl"
  proof -
    have "running_tasks ?cl2 = running_tasks ?cl1" by (simp add: running_tasks_def)
    with ab that show ?thesis by (force simp: no_leak_def)
  qed
  have get2: "hm_get (cl_tasks ?cl2) u = hm_get (cl_tasks cl) u" if "u \<in> set new" for u
    using ab that hok by (auto simp: hm_get_filter handles_ok_def split: option.split)
  have "t \<notin> running_tasks cl'" if "u \<in> set (cl_urls cl) - set new" "hm_get (cl_tasks cl) u = Some t" for u t
  proof -
    have ut: "(u, t) \<in> set (cl_tasks cl)" using that hok by (simp add: handles_ok_def hm_get_iff)
    then have "t < cl_spawned cl" using hok by (force simp: handles_ok_def running_tasks_def)
    moreover have "t \<notin> running_tasks ?cl1" using ab ut that(1) by (force simp: image_iff)
    ultimately show ?thesis using ab bt by (simp add: running_tasks_def)
  qed
  moreover have "set new = set (cl_urls cl) \<inter> set new \<union> set ?add" by auto
  ultimately show ?thesis
    using bt keys2 leak2 get2 by (auto simp: client_inv_def)
qed

lemma client_run_inv:
  assumes "client_run parse_uri rs cl"
  shows "client_inv cl \<and> ((\<forall>urls. Inr urls \<in> set rs \<longrightarrow> distinct urls) \<longrightarrow> no_leak cl)"
  using assms
proof (induction rule: client_run.induct)
  case (client_run_start r cl)
  then show ?case using client_inv_start [of parse_uri r cl] by (cases r) (auto simp: client_start_def)
next
  case (client_run_sighup rs cl r cl')
  then show ?case using reload_spec [of cl parse_uri _ cl']
    by (cases r) (auto simp: handle_sighup_def)
qed

section \<open>Properties\<close>

text \<open>
  C28. The connections follow the server list. After the start and any number of SIGHUPs, there is
  exactly one task handle per listed server, the handles name different running tasks, and if no
  list repeats a server, no other task runs. A further reload keeps the tasks of the servers that
  stay and stops those of the servers that go.
\<close>

theorem connections_follow_server_list:
  assumes "client_run parse_uri rs cl"
  shows "fst ` set (cl_tasks cl) = set (cl_urls cl) \<and> distinct (map fst (cl_tasks cl)) \<and>
     distinct (map snd (cl_tasks cl)) \<and> snd ` set (cl_tasks cl) \<subseteq> running_tasks cl \<and>
     ((\<forall>urls. Inr urls \<in> set rs \<longrightarrow> distinct urls) \<longrightarrow> running_tasks cl = snd ` set (cl_tasks cl)) \<and>
     (\<forall>new cl'. reload parse_uri new cl = Done cl' \<longrightarrow>
        cl_urls cl' = new \<and>
        (\<forall>u \<in> set (cl_urls cl) \<inter> set new. hm_get (cl_tasks cl') u = hm_get (cl_tasks cl) u) \<and>
        (\<forall>u \<in> set (cl_urls cl) - set new. \<forall>t. hm_get (cl_tasks cl) u = Some t \<longrightarrow> t \<notin> running_tasks cl'))"
proof -
  have inv: "client_inv cl" and leak: "(\<forall>urls. Inr urls \<in> set rs \<longrightarrow> distinct urls) \<longrightarrow> no_leak cl"
    using client_run_inv [OF assms] by blast+
  have handles: "hm_ok (cl_tasks cl)" "distinct (map snd (cl_tasks cl))" "snd ` set (cl_tasks cl) \<subseteq> running_tasks cl"
    "fst ` set (cl_tasks cl) = set (cl_urls cl)"
    using inv by (simp_all add: client_inv_def handles_ok_def)
  have "running_tasks cl = snd ` set (cl_tasks cl)" if "\<forall>urls. Inr urls \<in> set rs \<longrightarrow> distinct urls"
    using leak that handles(3) unfolding no_leak_def by blast
  moreover have "cl_urls cl' = new \<and>
        (\<forall>u \<in> set (cl_urls cl) \<inter> set new. hm_get (cl_tasks cl') u = hm_get (cl_tasks cl) u) \<and>
        (\<forall>u \<in> set (cl_urls cl) - set new. \<forall>t. hm_get (cl_tasks cl) u = Some t \<longrightarrow> t \<notin> running_tasks cl')"
    if "reload parse_uri new cl = Done cl'" for new cl'
    using reload_spec [OF inv that] by (elim conjE) (intro conjI)
  ultimately show ?thesis using handles unfolding hm_ok_def by (intro conjI allI impI) simp_all
qed

theorem connections_follow_server_list_witness:
  "\<exists>cl. client_run Some [Inr [''a'', ''b''], Inl ''gone'', Inr [''b'', ''c'']] cl \<and> running_tasks cl = snd ` set (cl_tasks cl)"
proof -
  define cl0 where "cl0 = \<lparr>cl_urls = [''a'', ''b''], cl_tasks = [(''a'', 0), (''b'', 1)], cl_spawned = 2, cl_aborted = []\<rparr>"
  have "client_run Some [Inr [''a'', ''b'']] cl0"
    by (rule client_run_start) (simp add: client_start_def cl0_def)
  then have "client_run Some ([Inr [''a'', ''b'']] @ [Inl ''gone'']) cl0"
    by (rule client_run_sighup) (simp add: handle_sighup_def)
  then have "client_run Some (([Inr [''a'', ''b'']] @ [Inl ''gone'']) @ [Inr [''b'', ''c'']])
      \<lparr>cl_urls = [''b'', ''c''], cl_tasks = [(''b'', 1), (''c'', 2)], cl_spawned = 3, cl_aborted = [0]\<rparr>"
    by (rule client_run_sighup) (simp add: handle_sighup_def reload_def cl0_def hm_get_Cons hm_remove_def)
  then have run: "client_run Some [Inr [''a'', ''b''], Inl ''gone'', Inr [''b'', ''c'']]
      \<lparr>cl_urls = [''b'', ''c''], cl_tasks = [(''b'', 1), (''c'', 2)], cl_spawned = 3, cl_aborted = [0]\<rparr>" by simp
  from connections_follow_server_list [OF run] run show ?thesis by auto
qed

end
