(* ===== verification/Forwarder_Drain.thy ===== *)
theory Forwarder_Drain
  imports Client_Forwarder Registry
begin

text \<open>
  The tasks of a forwarder as a labelled step relation, and that they all come to their end: no
  matter how the scheduler interleaves them and which sends fail, the work that was handed to a
  forwarder is done after a bounded number of steps, provided that it has a permit to give out and
  that the transactions can be parsed.
\<close>

section \<open>Steps of the tasks\<close>

datatype task_event = Begin nat | Acquire nat | Finish nat bool

inductive task_step ::
  "(client_op list \<Rightarrow> int) \<Rightarrow> (string \<Rightarrow> 'addr option) \<Rightarrow> (string \<Rightarrow> 'bytes option) \<Rightarrow>
   fwd_state \<Rightarrow> task_event \<Rightarrow> fwd_state \<Rightarrow> bool" for get_permits parse_tpu base64_decode where
  step_begin: "i < length (fs_tasks st) \<Longrightarrow> ft_phase (fs_tasks st ! i) = Spawned \<Longrightarrow>
     task_begin get_permits parse_tpu base64_decode i st = Done st' \<Longrightarrow>
     task_step get_permits parse_tpu base64_decode st (Begin i) st'"
| step_acquire: "i < length (fs_tasks st) \<Longrightarrow> ft_phase (fs_tasks st ! i) = Waiting \<Longrightarrow> 0 < fs_available st \<Longrightarrow>
     task_step get_permits parse_tpu base64_decode st (Acquire i) (task_acquire i st)"
| step_finish: "i < length (fs_tasks st) \<Longrightarrow> ft_phase (fs_tasks st ! i) = Sending \<Longrightarrow>
     task_step get_permits parse_tpu base64_decode st (Finish i ok) (task_finish i ok st)"

lemma task_step_inv: "task_step gp pt b64 st e st' \<Longrightarrow> fwd_inv f txs st \<Longrightarrow> fwd_inv f txs st'"
  by (induction rule: task_step.induct) (auto intro: fwd_inv_begin fwd_inv_acquire fwd_inv_finish)

interpretation forwarder_tasks: preserved "task_step gp pt b64" "fwd_inv f txs" for gp pt b64 f txs
  by unfold_locales (rule task_step_inv)

section \<open>Remaining work\<close>

fun phase_work :: "task_phase \<Rightarrow> nat" where
  "phase_work Spawned = 3"
| "phase_work Waiting = 2"
| "phase_work Sending = 1"
| "phase_work Ended = 0"

definition work :: "fwd_state \<Rightarrow> nat" where
  "work st = sum_list (map (phase_work \<circ> ft_phase) (fs_tasks st))"

lemma work_le: "work st \<le> 3 * length (fs_tasks st)"
proof -
  have "phase_work p \<le> 3" for p by (cases p) simp_all
  then have "sum_list (map (phase_work \<circ> ft_phase) ts) \<le> 3 * length ts" for ts
    by (induction ts) (simp_all, smt (verit) add_mono)
  then show ?thesis by (simp add: work_def)
qed

lemma work_zero: "work st = 0 \<longleftrightarrow> (\<forall>t \<in> set (fs_tasks st). ft_phase t = Ended)"
proof -
  have "phase_work p = 0 \<longleftrightarrow> p = Ended" for p by (cases p) simp_all
  then show ?thesis by (simp add: work_def)
qed

lemma work_set:
  assumes "i < length (fs_tasks st)"
  shows "work (set_phase i p st) + phase_work (ft_phase (fs_tasks st ! i)) = work st + phase_work p"
proof -
  have "sum_list (map g (xs[i := x])) + g (xs ! i) = sum_list (map g xs) + g x"
    if "i < length xs" for g :: "fwd_task \<Rightarrow> nat" and xs x i
    using that by (induction xs arbitrary: i) (auto split: nat.split)
  from this [OF assms, of "phase_work \<circ> ft_phase"] show ?thesis by (simp add: work_def set_phase_def)
qed

lemma work_upd [simp]: "work (st\<lparr>fs_available := n\<rparr>) = work st" "work (st\<lparr>fs_ops := ops\<rparr>) = work st"
  by (simp_all add: work_def)

lemma task_step_work: "task_step gp pt b64 st e st' \<Longrightarrow> Suc (work st') = work st"
proof (induction rule: task_step.induct)
  case (step_begin i st st')
  from step_begin(3) obtain ops where "st' = set_phase i Waiting (st\<lparr>fs_ops := ops\<rparr>)" by (rule task_begin_Done) blast
  with work_set [of i "st\<lparr>fs_ops := ops\<rparr>" Waiting] step_begin(1,2) show ?case by simp
next
  case (step_acquire i st)
  with work_set [of i st Sending] show ?case by (simp add: task_acquire_def)
next
  case (step_finish i st ok)
  with work_set [of i "handle_send_result (ft_source (fs_tasks st ! i)) ok st" Ended] show ?case
    by (simp add: task_finish_def Let_def handle_send_result_def) (simp add: work_def)
qed

lemma run_work: "run (task_step gp pt b64) st es st' \<Longrightarrow> length es + work st' = work st"
  by (induction rule: run.induct) (auto dest: task_step_work)

section \<open>Progress\<close>

definition parseable :: "(string \<Rightarrow> 'addr option) \<Rightarrow> (string \<Rightarrow> 'bytes option) \<Rightarrow> pb_transaction \<Rightarrow> bool" where
  "parseable parse_tpu base64_decode tx \<longleftrightarrow>
     base64_decode (tr_data tx) \<noteq> None \<and> (\<forall>tpu \<in> set (tr_tpu tx). parse_tpu tpu \<noteq> None)"

lemma jobs_parse:
  assumes "\<forall>tx \<in> set txs. parseable pt b64 (fo_transaction tx)" and "(s, tx, Some tpu) \<in> set (jobs f txs)"
  shows "pt tpu \<noteq> None \<and> b64 (tr_data tx) \<noteq> None"
  using assms by (cases f) (fastforce simp: jobs_def parseable_def)+

lemma begin_succeeds:
  assumes "fwd_inv f txs st" and "\<forall>tx \<in> set txs. parseable pt b64 (fo_transaction tx)" and "i < length (fs_tasks st)"
  shows "\<exists>st'. task_begin gp pt b64 i st = Done st'"
proof (cases "ft_tpu (fs_tasks st ! i)")
  case None
  then show ?thesis by (simp add: task_begin_def)
next
  case (Some tpu)
  have "task_job (fs_tasks st ! i) \<in> set (jobs f txs)"
    using assms(1,3) unfolding fwd_inv_def by (metis length_map nth_map nth_mem)
  with jobs_parse [OF assms(2), of _ _ tpu f] Some have
    "pt tpu \<noteq> None \<and> b64 (tr_data (ft_transaction (fs_tasks st ! i))) \<noteq> None" by (simp add: task_job_def)
  with Some show ?thesis by (auto simp: task_begin_def Let_def)
qed

lemma progress:
  assumes inv: "fwd_inv f txs st" and ok: "\<forall>tx \<in> set txs. parseable pt b64 (fo_transaction tx)" and perm: "0 < permits f"
    and work: "work st \<noteq> 0"
  shows "\<exists>e st'. task_step gp pt b64 st e st'"
proof -
  from work obtain i where i: "i < length (fs_tasks st)" and ph: "ft_phase (fs_tasks st ! i) \<noteq> Ended"
    unfolding work_zero by (metis in_set_conv_nth)
  show ?thesis
  proof (cases "ft_phase (fs_tasks st ! i)")
    case Spawned
    from begin_succeeds [OF inv ok i] obtain st' where "task_begin gp pt b64 i st = Done st'" ..
    from step_begin [OF i Spawned this] show ?thesis by blast
  next
    case Waiting
    show ?thesis
    proof (cases "fs_available st = 0")
      case True
      with inv perm have "0 < in_phase Sending st" by (simp add: fwd_inv_def)
      then obtain j where "j < length (fs_tasks st)" "ft_phase (fs_tasks st ! j) = Sending"
        unfolding in_phase_def by (metis (mono_tags, lifting) filter_False in_set_conv_nth less_numeral_extra(3) list.size(3))
      from step_finish [OF this] show ?thesis by blast
    next
      case False
      with step_acquire [OF i Waiting] show ?thesis by blast
    qed
  next
    case Sending
    from step_finish [OF i Sending] show ?thesis by blast
  qed (use ph in simp)
qed

lemma stuck_iff:
  assumes "fwd_inv f txs st" and "\<forall>tx \<in> set txs. parseable pt b64 (fo_transaction tx)" and "0 < permits f"
  shows "(\<nexists>e st'. task_step gp pt b64 st e st') \<longleftrightarrow> work st = 0"
  using progress [OF assms] task_step_work by fastforce

lemma drains:
  assumes "fwd_inv f txs st" and "\<forall>tx \<in> set txs. parseable pt b64 (fo_transaction tx)" and "0 < permits f"
  shows "\<exists>es st'. run (task_step gp pt b64) st es st' \<and> work st' = 0"
  using assms(1)
proof (induction "work st" arbitrary: st rule: less_induct)
  case less
  show ?case
  proof (cases "work st = 0")
    case True
    with run_nil [of "task_step gp pt b64" st] show ?thesis by blast
  next
    case False
    from progress [OF less.prems(1) assms(2,3) False] obtain e st1 where st1: "task_step gp pt b64 st e st1" by blast
    from less.hyps [of st1] task_step_work [OF st1] task_step_inv [OF st1 less.prems(1)] obtain es st' where
      "run (task_step gp pt b64) st1 es st'" "work st' = 0" by (metis lessI)
    with st1 have "run (task_step gp pt b64) st (e # es) st'" unfolding run_Cons by blast
    with \<open>work st' = 0\<close> show ?thesis by blast
  qed
qed

lemma work_done:
  assumes "fwd_inv f txs st" and "work st = 0"
  shows "(\<forall>t \<in> set (fs_tasks st). ft_phase t = Ended) \<and> fs_available st = fs_max_permits st"
proof -
  from assms(2) have ended: "\<forall>t \<in> set (fs_tasks st). ft_phase t = Ended" by (simp add: work_zero)
  then have "in_phase Sending st = 0" by (auto simp: in_phase_def filter_empty_conv)
  with assms(1) ended show ?thesis by (simp add: fwd_inv_def)
qed

section \<open>Properties\<close>

text \<open>
  C15. The forwarder finishes its work. Let a forwarder with at least one permit have processed
  transactions whose payloads are base64 and whose TPU addresses parse, and let its tasks be in any
  state they can reach. Then no task panics; every sequence of task steps is finite, at most three
  steps per task; a state without a next step has all tasks ended and all permits returned; and
  such a state is reached.
\<close>

theorem forwarder_drains:
  assumes "fwd_run f gp pt b64 txs st" and "0 < fs_max_permits (fwd_init f)"
    and "\<forall>tx \<in> set txs. parseable pt b64 (fo_transaction tx)"
  shows "(\<forall>i < length (fs_tasks st). \<exists>st'. task_begin gp pt b64 i st = Done st') \<and>
     (\<forall>es st'. run (task_step gp pt b64) st es st' \<longrightarrow> length es \<le> 3 * length (fs_tasks st) \<and>
        ((\<nexists>e st''. task_step gp pt b64 st' e st'') \<longrightarrow>
           (\<forall>t \<in> set (fs_tasks st'). ft_phase t = Ended) \<and> fs_available st' = fs_max_permits st')) \<and>
     (\<exists>es st'. run (task_step gp pt b64) st es st' \<and> (\<nexists>e st''. task_step gp pt b64 st' e st''))"
proof (intro conjI allI impI)
  note inv = fwd_run_inv [OF assms(1)]
  have perm: "0 < permits f" using assms(2) by (simp add: permits_def)
  show "\<exists>st'. task_begin gp pt b64 i st = Done st'" if "i < length (fs_tasks st)" for i
    by (rule begin_succeeds [OF inv assms(3) that])
  fix es st' assume r: "run (task_step gp pt b64) st es st'"
  from run_work [OF r] work_le [of st] show "length es \<le> 3 * length (fs_tasks st)" by linarith
  have inv': "fwd_inv f txs st'" by (rule forwarder_tasks.inv_run [OF r inv])
  assume "\<nexists>e st''. task_step gp pt b64 st' e st''"
  then have "work st' = 0" unfolding stuck_iff [OF inv' assms(3) perm] .
  from work_done [OF inv' this] show "\<forall>t \<in> set (fs_tasks st'). ft_phase t = Ended" "fs_available st' = fs_max_permits st'"
    by simp_all
next
  note inv = fwd_run_inv [OF assms(1)]
  have perm: "0 < permits f" using assms(2) by (simp add: permits_def)
  from drains [OF inv assms(3) perm] obtain es st' where
    r: "run (task_step gp pt b64) st es st'" and "work st' = 0" by blast
  with stuck_iff [OF forwarder_tasks.inv_run [OF r inv] assms(3) perm]
  show "\<exists>es st'. run (task_step gp pt b64) st es st' \<and> (\<nexists>e st''. task_step gp pt b64 st' e st'')" by blast
qed

theorem forwarder_drains_witness:
  "\<exists>es st'. run (task_step (\<lambda>_. 0) Some Some)
     (process (Quic 1 None :: unit transaction_forwarder) ''srv'' (fo_transaction tx_two) (fwd_init (Quic 1 None :: unit transaction_forwarder)))
     es st' \<and> (\<nexists>e st''. task_step (\<lambda>_. 0) Some Some st' e st'')"
proof -
  let ?f = "Quic 1 None :: unit transaction_forwarder"
  have "fwd_run ?f (\<lambda>_. 0) Some Some ([] @ [tx_two]) (process ?f (fo_source tx_two) (fo_transaction tx_two) (fwd_init ?f))"
    by (intro fwd_process fwd_start)
  then have "fwd_run ?f (\<lambda>_. 0) Some Some [tx_two] (process ?f ''srv'' (fo_transaction tx_two) (fwd_init ?f))"
    by (simp add: tx_two_def)
  moreover have "0 < fs_max_permits (fwd_init ?f)" by (simp add: fwd_init_def)
  moreover have "\<forall>tx \<in> set [tx_two]. parseable Some Some (fo_transaction tx)" by (simp add: parseable_def)
  ultimately show ?thesis using forwarder_drains by blast
qed

end
