(* ===== verification/Client_System.thy ===== *)
theory Client_System
  imports Grpc_Client Client_Main Forwarder_Drain Server_Metrics
begin

text \<open>
  The client as one process: its connections, the metrics feeders they start, the one queue into the
  forwarder with its tasks, the signal handler and the metrics exporter, on their shared state.

  An event is one atomic action of one task, with what the outside world answers to it;
  \<open>cl_exec\<close> runs it. A panic of any task ends the process with code 1 (\<open>client_setup_panic_hook\<close>), and
  so does the end of the exporter; when the signal handler is gone, \<^verbatim>\<open>main\<close> returns and the process
  ends with code 0 (\<open>cl_quits\<close>). The libraries are the fields of \<open>client_env\<close>.
\<close>

section \<open>The exporter\<close>

definition collect_metrics ::
  "(client_op list \<Rightarrow> 'families) \<Rightarrow> ('families \<Rightarrow> 'buf option) \<Rightarrow> ('buf \<Rightarrow> string option) \<Rightarrow> client_op list \<Rightarrow> string outcome" where
  "collect_metrics gather encode from_utf8 ops =
     outcome_bind (unwrap (encode (gather ops))) (\<lambda>buffer. unwrap (from_utf8 buffer))"

text \<open>
  The task of \<^verbatim>\<open>spawn_metrics\<close>: it binds its address (\<^verbatim>\<open>warp\<close> documents that \<^verbatim>\<open>run\<close> panics if it
  cannot), answers \<^verbatim>\<open>GET /metrics\<close>, rejects other requests, and takes the process down when the server
  ends. What it does is an answer, a panic, or the end of the process.
\<close>

datatype exporter_event = Bind bool | Request string "string list" | Exporter_ended

definition spawn_metrics :: "string outcome \<Rightarrow> exporter_event \<Rightarrow> http_response option outcome process" where
  "spawn_metrics collected e =
     (case e of
        Bind bound \<Rightarrow> Alive (if bound then Done None else Panic ''error binding to the metrics address'')
      | Request meth path \<Rightarrow>
          Alive (if path = [''metrics''] \<and> meth = ''GET'' then outcome_bind collected (\<lambda>body. Done (Some (Http_ok body)))
                 else Done (Some Http_reject))
      | Exporter_ended \<Rightarrow> Exited 1)"

definition client_setup_panic_hook :: "'a outcome \<Rightarrow> 'a process" where
  "client_setup_panic_hook r = exit_on_panic r"

section \<open>State\<close>

definition METRICS_BUFFER_SIZE :: nat where
  "METRICS_BUFFER_SIZE = 1"

text \<open>
  A feeder sleeps between rounds; in a round it offers one message to its channel, which has room
  for \<open>METRICS_BUFFER_SIZE\<close>; it ends when it finds the receiver gone.
\<close>

datatype feeder_phase = Resting | Offering request_envelope | Over

record feeder =
  fe_source :: string
  fe_channel :: "request_envelope list"
  fe_closed :: bool
  fe_phase :: feeder_phase

definition spawn_feeder :: "string \<Rightarrow> feeder" where
  "spawn_feeder source = \<lparr>fe_source = source, fe_channel = [], fe_closed = False, fe_phase = Resting\<rparr>"

text \<open>A connection task sleeps for a delay, connects, streams, and so on until it is aborted.\<close>

datatype conn_phase = Idle u64 | Connecting | Streaming | Stopped

record conn =
  co_source :: string
  co_retry :: u64
  co_phase :: conn_phase
  co_feeder :: nat
  co_upstream :: "request_envelope list"

definition new_conn :: "string \<Rightarrow> conn" where
  "new_conn source = \<lparr>co_source = source, co_retry = 0, co_phase = Idle 0, co_feeder = 0, co_upstream = []\<rparr>"

record ('cert, 'uri, 'addr, 'bytes) client_env =
  ce_forwarder :: "'cert transaction_forwarder"
  ce_parse_uri :: "string \<Rightarrow> 'uri option"
  ce_host :: "'uri \<Rightarrow> string option"
  ce_parse_tpu :: "string \<Rightarrow> 'addr option"
  ce_base64 :: "string \<Rightarrow> 'bytes option"
  ce_get_counter :: "client_op list \<Rightarrow> client_metric \<Rightarrow> string \<Rightarrow> u64"
  ce_get_permits :: "client_op list \<Rightarrow> int"
  ce_encode :: "client_op list \<Rightarrow> 8 word list option"
  ce_utf8 :: "8 word list \<Rightarrow> string option"

text \<open>
  \<open>cs_exporter\<close> tells whether the exporter has bound its address. The last field records history for
  the statements: the transactions taken from the forwarder's queue, in order.
\<close>

record client_system =
  cs_client :: client
  cs_conns :: "conn list"
  cs_feeders :: "feeder list"
  cs_queue :: "forwarded_transaction list"
  cs_fwd :: fwd_state
  cs_exporter :: bool
  cs_processed :: "forwarded_transaction list"

definition url_source :: "('cert, 'uri, 'addr, 'bytes) client_env \<Rightarrow> string \<Rightarrow> string" where
  "url_source ev url =
     (case Option.bind (ce_parse_uri ev url) (ce_host ev) of Some h \<Rightarrow> h | None \<Rightarrow> ''unknown'')"

definition client_system_start :: "('cert, 'uri, 'addr, 'bytes) client_env \<Rightarrow> string + string list \<Rightarrow> client_system outcome" where
  "client_system_start ev urls =
     outcome_bind (client_start (ce_parse_uri ev) urls) (\<lambda>cl.
       Done \<lparr>cs_client = cl, cs_conns = map (new_conn \<circ> url_source ev) (cl_urls cl), cs_feeders = [], cs_queue = [],
             cs_fwd = fwd_init (ce_forwarder ev), cs_exporter = False, cs_processed = []\<rparr>)"

section \<open>Events\<close>

datatype client_event =
    Attempt nat
  | Attempt_result nat "string + (string + unit)"
  | Response nat "(string + response_envelope) option"
  | Metrics_take nat
  | Aborted nat
  | Feeder_round nat "u64 option"
  | Feeder_send nat
  | Forward
  | Forward_task task_event
  | Sighup "string + string list"
  | Exporter exporter_event
  | Signals_end

definition upd_conn :: "nat \<Rightarrow> (conn \<Rightarrow> conn) \<Rightarrow> client_system \<Rightarrow> client_system" where
  "upd_conn i f s = s\<lparr>cs_conns := (cs_conns s)[i := f (cs_conns s ! i)]\<rparr>"

definition upd_feeder :: "nat \<Rightarrow> (feeder \<Rightarrow> feeder) \<Rightarrow> client_system \<Rightarrow> client_system" where
  "upd_feeder j f s = s\<lparr>cs_feeders := (cs_feeders s)[j := f (cs_feeders s ! j)]\<rparr>"

text \<open>
  The end of an attempt: the receiver of the feeder's channel is dropped; after an error the loop
  counts the retry and sleeps, after a regular end the task is over.
\<close>

definition attempt_ends :: "nat \<Rightarrow> string + unit \<Rightarrow> client_system \<Rightarrow> client_system" where
  "attempt_ends i r s =
     upd_feeder (co_feeder (cs_conns s ! i)) (fe_closed_update (\<lambda>_. True))
       (upd_conn i (\<lambda>c. case r of
            Inr _ \<Rightarrow> c\<lparr>co_phase := Stopped\<rparr>
          | Inl err \<Rightarrow> c\<lparr>co_retry := co_retry c + 1, co_phase := Idle (retry_delay (co_retry c + 1))\<rparr>) s)"

text \<open>One event of an open stream, as its loop handles it.\<close>

definition stream_step :: "nat \<Rightarrow> stream_event \<Rightarrow> client_system \<Rightarrow> client_system" where
  "stream_step i e s =
     (let c = cs_conns s ! i;
          (r, q) = stream_loop True True (co_source c) [e] \<lparr>sq_upstream = co_upstream c, sq_transactions = []\<rparr>;
          s' = (upd_conn i (co_upstream_update (\<lambda>_. sq_upstream q)) s)
                 \<lparr>cs_queue := cs_queue s @ sq_transactions q\<rparr>
      in case r of Some res \<Rightarrow> attempt_ends i res s' | None \<Rightarrow> s')"

definition spawn_grpc_connection_attempt :: "nat \<Rightarrow> client_system \<Rightarrow> client_system" where
  "spawn_grpc_connection_attempt i s =
     upd_conn i (\<lambda>c. c\<lparr>co_phase := Connecting, co_feeder := length (cs_feeders s)\<rparr>)
       (s\<lparr>cs_feeders := cs_feeders s @ [spawn_feeder (co_source (cs_conns s ! i))]\<rparr>)"

definition feeder_step :: "('cert, 'uri, 'addr, 'bytes) client_env \<Rightarrow> nat \<Rightarrow> u64 option \<Rightarrow> client_system \<Rightarrow> client_system" where
  "feeder_step ev j memory s =
     (let fe = cs_feeders s ! j
      in case feeder_round (ce_get_counter ev) (ce_get_permits ev) (fe_closed fe) memory (fe_source fe) (fs_ops (cs_fwd s)) of
           None \<Rightarrow> upd_feeder j (fe_phase_update (\<lambda>_. Over)) s
         | Some (msg, _) \<Rightarrow> upd_feeder j (fe_phase_update (\<lambda>_. Offering msg)) s)"

text \<open>The offered message is sent, or dropped if the receiver is gone; the gauge is reset either way.\<close>

definition feeder_send :: "nat \<Rightarrow> client_system \<Rightarrow> client_system" where
  "feeder_send j s =
     (case fe_phase (cs_feeders s ! j) of
        Offering msg \<Rightarrow>
          (upd_feeder j (\<lambda>fe. fe\<lparr>fe_channel := (if fe_closed fe then fe_channel fe else fe_channel fe @ [msg]), fe_phase := Resting\<rparr>) s)
            \<lparr>cs_fwd := (cs_fwd s)\<lparr>fs_ops := fs_ops (cs_fwd s) @ [Permits_set 0]\<rparr>\<rparr>
      | _ \<Rightarrow> s)"

fun task_exec :: "('cert, 'uri, 'addr, 'bytes) client_env \<Rightarrow> task_event \<Rightarrow> fwd_state \<Rightarrow> fwd_state outcome" where
  "task_exec ev (Begin k) st = task_begin (ce_get_permits ev) (ce_parse_tpu ev) (ce_base64 ev) k st"
| "task_exec ev (Acquire k) st = Done (task_acquire k st)"
| "task_exec ev (Finish k ok) st = Done (task_finish k ok st)"

definition client_sighup :: "('cert, 'uri, 'addr, 'bytes) client_env \<Rightarrow> string + string list \<Rightarrow> client_system \<Rightarrow> client_system outcome" where
  "client_sighup ev urls s =
     outcome_bind (handle_sighup (ce_parse_uri ev) urls (cs_client s)) (\<lambda>cl.
       Done (s\<lparr>cs_client := cl,
               cs_conns := cs_conns s @ (case urls of
                 Inr new_urls \<Rightarrow> map (new_conn \<circ> url_source ev) (filter (\<lambda>x. x \<notin> set (cl_urls (cs_client s))) new_urls)
               | Inl err \<Rightarrow> [])\<rparr>))"

definition exporter_step :: "('cert, 'uri, 'addr, 'bytes) client_env \<Rightarrow> exporter_event \<Rightarrow> client_system \<Rightarrow> client_system outcome" where
  "exporter_step ev e s =
     (case spawn_metrics (collect_metrics id (ce_encode ev) (ce_utf8 ev) (fs_ops (cs_fwd s))) e of
        Alive r \<Rightarrow> outcome_bind r (\<lambda>reply. Done (s\<lparr>cs_exporter := True\<rparr>))
      | Exited code \<Rightarrow> Done s)"

fun cl_exec :: "('cert, 'uri, 'addr, 'bytes) client_env \<Rightarrow> client_event \<Rightarrow> client_system \<Rightarrow> client_system outcome" where
  "cl_exec ev (Attempt i) s = Done (spawn_grpc_connection_attempt i s)"
| "cl_exec ev (Attempt_result i r) s =
     (case r of
        Inl err \<Rightarrow> Done (attempt_ends i (Inl err) s)
      | Inr opened \<Rightarrow>
          outcome_bind (mtx_stream True True opened (co_source (cs_conns s ! i)) [] \<lparr>sq_upstream = [], sq_transactions = []\<rparr>)
            (\<lambda>_. Done (upd_conn i (\<lambda>c. c\<lparr>co_phase := Streaming, co_upstream := []\<rparr>) s)))"
| "cl_exec ev (Response i r) s = Done (stream_step i (Response_recv r) s)"
| "cl_exec ev (Metrics_take i) s =
     (let j = co_feeder (cs_conns s ! i)
      in case fe_channel (cs_feeders s ! j) of
           m # rest \<Rightarrow> Done (stream_step i (Metrics_recv (Some m)) (upd_feeder j (fe_channel_update (\<lambda>_. rest)) s))
         | [] \<Rightarrow> Done (stream_step i (Metrics_recv None) s))"
| "cl_exec ev (Aborted i) s =
     Done (upd_conn i (co_phase_update (\<lambda>_. Stopped))
       (case co_phase (cs_conns s ! i) of
          Idle d \<Rightarrow> s
        | Stopped \<Rightarrow> s
        | _ \<Rightarrow> upd_feeder (co_feeder (cs_conns s ! i)) (fe_closed_update (\<lambda>_. True)) s))"
| "cl_exec ev (Feeder_round j memory) s = Done (feeder_step ev j memory s)"
| "cl_exec ev (Feeder_send j) s = Done (feeder_send j s)"
| "cl_exec ev Forward s =
     (case cs_queue s of
        [] \<Rightarrow> Done s
      | tx # rest \<Rightarrow> Done (s\<lparr>cs_queue := rest, cs_processed := cs_processed s @ [tx],
          cs_fwd := process (ce_forwarder ev) (fo_source tx) (fo_transaction tx) (cs_fwd s)\<rparr>))"
| "cl_exec ev (Forward_task e) s = outcome_bind (task_exec ev e (cs_fwd s)) (\<lambda>st. Done (s\<lparr>cs_fwd := st\<rparr>))"
| "cl_exec ev (Sighup urls) s = client_sighup ev urls s"
| "cl_exec ev (Exporter e) s = exporter_step ev e s"
| "cl_exec ev Signals_end s = Done s"

text \<open>
  The events after which the process is gone: the exporter's task ends it with code 1, and \<^verbatim>\<open>main\<close>
  returns when no more lists of servers can come.
\<close>

fun cl_quits :: "client_event \<Rightarrow> nat option" where
  "cl_quits (Exporter e) = (case spawn_metrics (Done []) e of Exited code \<Rightarrow> Some code | Alive r \<Rightarrow> None)"
| "cl_quits Signals_end = Some 0"
| "cl_quits _ = None"

text \<open>
  Which events can happen. A task acts in its phase; an aborted task stops at one of its next
  awaits; the feeder's channel ends for the stream only when the feeder is over; a feeder can send
  when there is room or nobody to receive; the exporter binds its address once, and then answers.
\<close>

fun task_enabled :: "task_event \<Rightarrow> fwd_state \<Rightarrow> bool" where
  "task_enabled (Begin k) st \<longleftrightarrow> k < length (fs_tasks st) \<and> ft_phase (fs_tasks st ! k) = Spawned"
| "task_enabled (Acquire k) st \<longleftrightarrow> k < length (fs_tasks st) \<and> ft_phase (fs_tasks st ! k) = Waiting \<and> 0 < fs_available st"
| "task_enabled (Finish k ok) st \<longleftrightarrow> k < length (fs_tasks st) \<and> ft_phase (fs_tasks st ! k) = Sending"

fun cl_enabled :: "client_event \<Rightarrow> client_system \<Rightarrow> bool" where
  "cl_enabled (Attempt i) s \<longleftrightarrow> i < length (cs_conns s) \<and> (case co_phase (cs_conns s ! i) of Idle d \<Rightarrow> True | _ \<Rightarrow> False)"
| "cl_enabled (Attempt_result i r) s \<longleftrightarrow> i < length (cs_conns s) \<and> co_phase (cs_conns s ! i) = Connecting"
| "cl_enabled (Response i r) s \<longleftrightarrow> i < length (cs_conns s) \<and> co_phase (cs_conns s ! i) = Streaming"
| "cl_enabled (Metrics_take i) s \<longleftrightarrow> i < length (cs_conns s) \<and> co_phase (cs_conns s ! i) = Streaming \<and>
     (fe_channel (cs_feeders s ! co_feeder (cs_conns s ! i)) \<noteq> [] \<or> fe_phase (cs_feeders s ! co_feeder (cs_conns s ! i)) = Over)"
| "cl_enabled (Aborted i) s \<longleftrightarrow> i < length (cs_conns s) \<and> i \<in> set (cl_aborted (cs_client s)) \<and> co_phase (cs_conns s ! i) \<noteq> Stopped"
| "cl_enabled (Feeder_round j memory) s \<longleftrightarrow> j < length (cs_feeders s) \<and> fe_phase (cs_feeders s ! j) = Resting"
| "cl_enabled (Feeder_send j) s \<longleftrightarrow> j < length (cs_feeders s) \<and>
     (case fe_phase (cs_feeders s ! j) of
        Offering msg \<Rightarrow> fe_closed (cs_feeders s ! j) \<or> length (fe_channel (cs_feeders s ! j)) < METRICS_BUFFER_SIZE
      | _ \<Rightarrow> False)"
| "cl_enabled Forward s \<longleftrightarrow> cs_queue s \<noteq> []"
| "cl_enabled (Forward_task e) s \<longleftrightarrow> task_enabled e (cs_fwd s)"
| "cl_enabled (Sighup urls) s \<longleftrightarrow> True"
| "cl_enabled (Exporter e) s \<longleftrightarrow> (case e of Bind bound \<Rightarrow> \<not> cs_exporter s | _ \<Rightarrow> cs_exporter s)"
| "cl_enabled Signals_end s \<longleftrightarrow> True"

inductive cl_step ::
  "('cert, 'uri, 'addr, 'bytes) client_env \<Rightarrow> client_system process \<Rightarrow> client_event \<Rightarrow> client_system process \<Rightarrow> bool" for ev where
  cl_event: "cl_enabled e s \<Longrightarrow> cl_quits e = None \<Longrightarrow> cl_step ev (Alive s) e (client_setup_panic_hook (cl_exec ev e s))"
| cl_quit: "cl_enabled e s \<Longrightarrow> cl_quits e = Some code \<Longrightarrow> cl_step ev (Alive s) e (Exited code)"

inductive_cases cl_stepE: "cl_step ev p e p'"

interpretation cl_machine: panicking cl_enabled "cl_exec ev" cl_quits "cl_step ev" for ev
proof
  fix p e p'
  show "cl_step ev p e p' \<longleftrightarrow> (\<exists>s. p = Alive s \<and> cl_enabled e s \<and>
      p' = (case cl_quits e of Some code \<Rightarrow> Exited code | None \<Rightarrow> exit_on_panic (cl_exec ev e s)))"
    by (cases "cl_quits e") (auto simp: client_setup_panic_hook_def elim!: cl_stepE
      intro: cl_event [unfolded client_setup_panic_hook_def] cl_quit)
qed

abbreviation cl_trace ::
  "('cert, 'uri, 'addr, 'bytes) client_env \<Rightarrow> client_event list \<Rightarrow> client_system \<Rightarrow> client_system option" where
  "cl_trace ev \<equiv> exec_trace (\<lambda>e s. cl_quits e = None \<and> cl_enabled e s) (cl_exec ev)"

lemma exporter_step_Done: "exporter_step ev e s = Done s' \<Longrightarrow> s' = s\<lparr>cs_exporter := cs_exporter s'\<rparr>"
  by (cases e) (auto simp: exporter_step_def spawn_metrics_def split: if_splits)

end
