(* ===== verification/Client_Accounts.thy ===== *)
theory Client_Accounts
  imports Client_System "HOL-Library.Code_Target_Nat"
begin

text \<open>
  Invariants of the whole client: the flow of transactions from all streams through the one queue
  into the forwarder, and the life of the connection tasks and their feeders.
\<close>

section \<open>The flow of transactions\<close>

definition flow_inv :: "('cert, 'uri, 'addr, 'bytes) client_env \<Rightarrow> client_system \<Rightarrow> bool" where
  "flow_inv ev s \<longleftrightarrow> fwd_inv (ce_forwarder ev) (cs_processed s) (cs_fwd s) \<and>
     (\<forall>tx \<in> set (cs_processed s @ cs_queue s). fo_source tx \<in> co_source ` set (cs_conns s))"

lemma upd_simps [simp]:
  "cs_queue (upd_conn i f s) = cs_queue s" "cs_queue (upd_feeder j g s) = cs_queue s"
  "cs_processed (upd_conn i f s) = cs_processed s" "cs_processed (upd_feeder j g s) = cs_processed s"
  "cs_fwd (upd_conn i f s) = cs_fwd s" "cs_fwd (upd_feeder j g s) = cs_fwd s"
  "cs_client (upd_conn i f s) = cs_client s" "cs_client (upd_feeder j g s) = cs_client s"
  "cs_feeders (upd_conn i f s) = cs_feeders s" "cs_conns (upd_feeder j g s) = cs_conns s"
  "length (cs_conns (upd_conn i f s)) = length (cs_conns s)" "length (cs_feeders (upd_feeder j g s)) = length (cs_feeders s)"
  by (simp_all add: upd_conn_def upd_feeder_def)

lemma conns_upd: "cs_conns (upd_conn i f s) = (cs_conns s)[i := f (cs_conns s ! i)]"
  by (simp add: upd_conn_def)

lemma feeders_upd: "cs_feeders (upd_feeder j f s) = (cs_feeders s)[j := f (cs_feeders s ! j)]"
  by (simp add: upd_feeder_def)

text \<open>No event changes the server a connection task is for.\<close>

lemma sources_update [simp]:
  assumes "co_source c = co_source (cs ! i)"
  shows "map co_source (cs[i := c]) = map co_source cs" and "co_source ` set (cs[i := c]) = co_source ` set cs"
proof -
  show "map co_source (cs[i := c]) = map co_source cs"
    using assms by (cases "i < length cs") (simp_all add: map_update list_update_same_conv list_update_beyond)
  from arg_cong [OF this, of set] show "co_source ` set (cs[i := c]) = co_source ` set cs" by simp
qed

lemma sources_attempt_ends [simp]: "map co_source (cs_conns (attempt_ends i r s)) = map co_source (cs_conns s)"
  by (cases r) (simp_all add: attempt_ends_def conns_upd)

lemma attempt_ends_flow [simp]:
  "cs_queue (attempt_ends i r s) = cs_queue s"
  "cs_processed (attempt_ends i r s) = cs_processed s" "cs_fwd (attempt_ends i r s) = cs_fwd s"
  "cs_client (attempt_ends i r s) = cs_client s"
  by (simp_all add: attempt_ends_def)

lemma stream_step_conv:
  "stream_step i e s =
     (let s' = (upd_conn i (co_upstream_update (\<lambda>_. co_upstream (cs_conns s ! i) @ upstream_of e)) s)
        \<lparr>cs_queue := cs_queue s @ transactions_of (co_source (cs_conns s ! i)) e\<rparr>
      in case ending (if terminal e then [e] else []) of Some r \<Rightarrow> attempt_ends i r s' | None \<Rightarrow> s')"
  unfolding stream_step_def stream_loop_conv by (cases e; cases "terminal e") (auto simp: Let_def)

lemma stream_step_flow:
  "cs_queue (stream_step i e s) = cs_queue s @ transactions_of (co_source (cs_conns s ! i)) e"
  "cs_processed (stream_step i e s) = cs_processed s" "cs_fwd (stream_step i e s) = cs_fwd s"
  "cs_client (stream_step i e s) = cs_client s"
  "map co_source (cs_conns (stream_step i e s)) = map co_source (cs_conns s)"
  unfolding stream_step_conv by (auto simp: Let_def conns_upd split: option.split)

lemma transactions_of_source: "tx \<in> set (transactions_of source e) \<Longrightarrow> fo_source tx = source"
proof -
  have "\<forall>tx \<in> set (transactions_of source e). fo_source tx = source"
    by (cases "(source, e)" rule: transactions_of.cases) (auto split: option.split)
  then show "tx \<in> set (transactions_of source e) \<Longrightarrow> fo_source tx = source" by blast
qed

lemma fwd_inv_gauge: "fwd_inv f txs st \<Longrightarrow> fwd_inv f txs (st\<lparr>fs_ops := fs_ops st @ [Permits_set v]\<rparr>)"
  by (cases f) (simp_all add: fwd_inv_def counted_def)

lemma fwd_inv_task:
  "fwd_inv f txs st \<Longrightarrow> task_enabled e st \<Longrightarrow> task_exec ev e st = Done st' \<Longrightarrow> fwd_inv f txs st'"
  by (cases e) (auto intro: fwd_inv_begin fwd_inv_acquire fwd_inv_finish)

lemma flow_inv_frame:
  assumes "flow_inv ev s" and "cs_processed s' = cs_processed s" and "cs_queue s' = cs_queue s"
    and "fwd_inv (ce_forwarder ev) (cs_processed s) (cs_fwd s')" and "co_source ` set (cs_conns s) \<subseteq> co_source ` set (cs_conns s')"
  shows "flow_inv ev s'"
  using assms unfolding flow_inv_def by (metis subsetD)

lemma flow_inv_stream:
  assumes "flow_inv ev s" and "i < length (cs_conns s)"
  shows "flow_inv ev (stream_step i e s)"
proof -
  have "fo_source tx \<in> co_source ` set (cs_conns s)" if "tx \<in> set (transactions_of (co_source (cs_conns s ! i)) e)" for tx
    using transactions_of_source [OF that] assms(2) by simp
  moreover have "co_source ` set (cs_conns (stream_step i e s)) = co_source ` set (cs_conns s)"
    using arg_cong [OF stream_step_flow(5), of set i e s] by simp
  ultimately show ?thesis using assms(1) unfolding flow_inv_def stream_step_flow by auto
qed

lemma flow_exec:
  assumes inv: "flow_inv ev s" and en: "cl_enabled e s" and ex: "cl_exec ev e s = Done s'"
  shows "flow_inv ev s'"
proof -
  have fwd: "fwd_inv (ce_forwarder ev) (cs_processed s) (cs_fwd s)" using inv by (simp add: flow_inv_def)
  note frame = flow_inv_frame [OF inv]
  show ?thesis
  proof (cases e)
    case (Attempt i)
    with ex fwd show ?thesis
      by (intro frame) (auto simp: spawn_grpc_connection_attempt_def conns_upd)
  next
    case (Attempt_result i r)
    have "map co_source (cs_conns s') = map co_source (cs_conns s)"
      using ex Attempt_result by (cases r) (auto simp: conns_upd)
    then have "co_source ` set (cs_conns s') = co_source ` set (cs_conns s)" by (metis set_map)
    with ex Attempt_result fwd show ?thesis by (intro frame) (auto split: sum.splits)
  next
    case (Response i r)
    with ex en flow_inv_stream [OF inv] show ?thesis by auto
  next
    case (Metrics_take i)
    let ?j = "co_feeder (cs_conns s ! i)"
    have "flow_inv ev (upd_feeder ?j (fe_channel_update (\<lambda>_. rest)) s)" for rest using fwd by (intro frame) simp_all
    with ex en Metrics_take inv show ?thesis
      by (auto simp: Let_def intro!: flow_inv_stream split: list.splits)
  next
    case (Aborted i)
    with ex fwd show ?thesis
      by (intro frame) (auto simp: conns_upd split: conn_phase.split)
  next
    case (Feeder_round j memory)
    with ex fwd show ?thesis by (intro frame) (auto simp: feeder_step_def Let_def split: option.splits)
  next
    case (Feeder_send j)
    with ex fwd show ?thesis
      by (intro frame) (auto simp: feeder_send_def fwd_inv_gauge split: feeder_phase.splits)
  next
    case Forward
    with en obtain tx rest where q: "cs_queue s = tx # rest" by (cases "cs_queue s") auto
    with ex Forward have "s' = s\<lparr>cs_queue := rest, cs_processed := cs_processed s @ [tx],
        cs_fwd := process (ce_forwarder ev) (fo_source tx) (fo_transaction tx) (cs_fwd s)\<rparr>" by simp
    with inv q fwd_inv_process [OF fwd, of tx] show ?thesis by (simp add: flow_inv_def)
  next
    case (Forward_task te)
    with ex en fwd_inv_task [OF fwd] fwd show ?thesis by (intro frame) auto
  next
    case (Sighup urls)
    with ex fwd show ?thesis by (intro frame) (auto simp: client_sighup_def)
  next
    case (Exporter x)
    with ex have "exporter_step ev x s = Done s'" by simp
    from exporter_step_Done [OF this] obtain b where s': "s' = s\<lparr>cs_exporter := b\<rparr>" by blast
    with fwd show ?thesis by (intro frame) simp_all
  next
    case Signals_end
    with ex inv show ?thesis by simp
  qed
qed

interpretation cl_flow: preserved "cl_step ev" "on_alive (flow_inv ev)" for ev
  by (rule cl_machine.preservedI) (rule flow_exec)

text \<open>
  What the servers sent: an event that brings an answer with a transaction, from the server of its
  connection.
\<close>

fun arrivals :: "client_system \<Rightarrow> client_event \<Rightarrow> forwarded_transaction list" where
  "arrivals s (Response i (Some (Inr env))) =
     (case rs_transaction env of
        Some tx \<Rightarrow> [\<lparr>fo_source = co_source (cs_conns s ! i), fo_transaction = tx\<rparr>] | None \<Rightarrow> [])"
| "arrivals s _ = []"

text \<open>Connection tasks are only added, and the server of a task stays.\<close>

lemma sources_exec:
  assumes "cl_exec ev e s = Done s'"
  shows "\<exists>more. map co_source (cs_conns s') = map co_source (cs_conns s) @ more"
proof (cases e)
  case (Attempt_result i r)
  with assms show ?thesis by (cases r) (auto simp: conns_upd)
next
  case (Exporter x)
  with assms have "exporter_step ev x s = Done s'" by simp
  from exporter_step_Done [OF this] obtain b where "s' = s\<lparr>cs_exporter := b\<rparr>" by blast
  then show ?thesis by simp
qed (use assms in \<open>auto simp: spawn_grpc_connection_attempt_def conns_upd stream_step_flow feeder_step_def feeder_send_def client_sighup_def
  Let_def split: list.splits option.splits feeder_phase.splits conn_phase.splits\<close>)

lemma source_stays:
  assumes "cl_exec ev e s = Done s'" and "i < length (cs_conns s)"
  shows "i < length (cs_conns s') \<and> co_source (cs_conns s' ! i) = co_source (cs_conns s ! i)"
proof -
  from sources_exec [OF assms(1)] obtain more where m: "map co_source (cs_conns s') = map co_source (cs_conns s) @ more" ..
  from arg_cong [OF m, of length] assms(2) have "i < length (cs_conns s')" by simp
  moreover from arg_cong [OF m, of "\<lambda>xs. xs ! i"] assms(2) calculation have "co_source (cs_conns s' ! i) = co_source (cs_conns s ! i)"
    by (simp add: nth_append)
  ultimately show ?thesis ..
qed

lemma arrivals_stream: "transactions_of (co_source (cs_conns s ! i)) (Response_recv r) = arrivals s (Response i r)"
  by (cases "(s, Response i r)" rule: arrivals.cases) auto

lemma arrivals_exec:
  assumes "cl_enabled e s" and "cl_exec ev e s = Done s'"
  shows "cs_processed s' @ cs_queue s' = cs_processed s @ cs_queue s @ arrivals s e"
proof (cases e)
  case (Attempt_result i r)
  with assms show ?thesis by (cases r) auto
next
  case (Response i r)
  with assms show ?thesis by (auto simp: stream_step_flow arrivals_stream)
next
  case (Exporter x)
  with assms have "exporter_step ev x s = Done s'" by simp
  from exporter_step_Done [OF this] obtain b where "s' = s\<lparr>cs_exporter := b\<rparr>" by blast
  with Exporter show ?thesis by simp
qed (use assms in \<open>auto simp: spawn_grpc_connection_attempt_def stream_step_flow feeder_step_def feeder_send_def client_sighup_def
  Let_def split: list.splits option.splits feeder_phase.splits conn_phase.splits\<close>)

lemma arrivals_stay:
  assumes "\<And>i. i < length (cs_conns s) \<Longrightarrow> co_source (cs_conns s' ! i) = co_source (cs_conns s ! i)"
    and "\<And>i r. e = Response i r \<Longrightarrow> i < length (cs_conns s)"
  shows "arrivals s' e = arrivals s e"
  using assms by (cases "(s, e)" rule: arrivals.cases) (auto split: option.split)

lemma arrivals_member:
  assumes "tx \<in> set (concat (map (arrivals s) es))"
  shows "\<exists>i env. Response i (Some (Inr env)) \<in> set es \<and> rs_transaction env = Some (fo_transaction tx)"
proof -
  from assms obtain e where e: "e \<in> set es" "tx \<in> set (arrivals s e)" by auto
  from e(2) have "\<exists>i env. e = Response i (Some (Inr env)) \<and> rs_transaction env = Some (fo_transaction tx)"
    by (cases "(s, e)" rule: arrivals.cases) (auto split: option.splits)
  with e(1) show ?thesis by blast
qed

text \<open>Everything that arrived is taken by the forwarder or still in its queue.\<close>

lemma arrivals_run:
  assumes "run (cl_step ev) (Alive s0) es (Alive s)" and "cs_processed s0 = []" and "cs_queue s0 = []"
  shows "concat (map (arrivals s) es) = cs_processed s @ cs_queue s"
proof -
  have "concat (map (arrivals s) es) = cs_processed s @ cs_queue s \<and> (\<forall>i r. Response i r \<in> set es \<longrightarrow> i < length (cs_conns s))"
  proof (rule cl_machine.trace_inv [OF assms(1)])
    fix es e s s'
    assume inv: "concat (map (arrivals s) es) = cs_processed s @ cs_queue s \<and> (\<forall>i r. Response i r \<in> set es \<longrightarrow> i < length (cs_conns s))"
      and en: "cl_enabled e s" and ex: "cl_exec ev e s = Done s'"
    note stays = source_stays [OF ex]
    have known: "\<forall>i r. Response i r \<in> set (es @ [e]) \<longrightarrow> i < length (cs_conns s)" using inv en by auto
    then have "arrivals s' x = arrivals s x" if "x \<in> set (es @ [e])" for x
      using that stays by (intro arrivals_stay) blast+
    then have "map (arrivals s') (es @ [e]) = map (arrivals s) (es @ [e])" by (simp only: map_eq_conv) blast
    from arg_cong [OF this, of concat] have "concat (map (arrivals s') (es @ [e])) = cs_processed s' @ cs_queue s'"
      using conjunct1 [OF inv] unfolding arrivals_exec [OF en ex] by simp
    with known stays show "concat (map (arrivals s') (es @ [e])) = cs_processed s' @ cs_queue s' \<and>
        (\<forall>i r. Response i r \<in> set (es @ [e]) \<longrightarrow> i < length (cs_conns s'))" by blast
  qed (use assms in simp)
  then show ?thesis ..
qed

lemma start_empty: "client_system_start ev r = Done s \<Longrightarrow> cs_processed s = [] \<and> cs_queue s = []"
  by (auto simp: client_system_start_def)

lemma flow_start: "client_system_start ev r = Done s \<Longrightarrow> flow_inv ev s"
  by (auto simp: client_system_start_def flow_inv_def fwd_inv_init)

section \<open>Connections and their feeders\<close>

definition active :: "conn \<Rightarrow> bool" where
  "active c \<longleftrightarrow> co_phase c = Connecting \<or> co_phase c = Streaming"

definition feeder_ok :: "feeder \<Rightarrow> bool" where
  "feeder_ok fe \<longleftrightarrow> (fe_phase fe = Over \<longrightarrow> fe_closed fe) \<and> length (fe_channel fe) \<le> METRICS_BUFFER_SIZE"

text \<open>Every connection at work has a feeder of its own, for its server, which it still listens to.\<close>

definition linked :: "conn list \<Rightarrow> feeder list \<Rightarrow> bool" where
  "linked cs fes \<longleftrightarrow>
     (\<forall>i < length cs. active (cs ! i) \<longrightarrow> co_feeder (cs ! i) < length fes \<and>
        fe_source (fes ! co_feeder (cs ! i)) = co_source (cs ! i) \<and> \<not> fe_closed (fes ! co_feeder (cs ! i))) \<and>
     (\<forall>i < length cs. \<forall>j < length cs. active (cs ! i) \<and> active (cs ! j) \<and> co_feeder (cs ! i) = co_feeder (cs ! j) \<longrightarrow> i = j) \<and>
     (\<forall>fe \<in> set fes. feeder_ok fe)"

lemma linkedD:
  assumes "linked cs fes" and "i < length cs" and "active (cs ! i)"
  shows "co_feeder (cs ! i) < length fes" and "fe_source (fes ! co_feeder (cs ! i)) = co_source (cs ! i)"
    and "\<not> fe_closed (fes ! co_feeder (cs ! i))"
  using assms unfolding linked_def by blast+

lemma linked_ok: "linked cs fes \<Longrightarrow> fe \<in> set fes \<Longrightarrow> feeder_ok fe"
  by (simp add: linked_def)

lemma linked_inj:
  "linked cs fes \<Longrightarrow> i < length cs \<Longrightarrow> j < length cs \<Longrightarrow> active (cs ! i) \<Longrightarrow> active (cs ! j) \<Longrightarrow>
     co_feeder (cs ! i) = co_feeder (cs ! j) \<Longrightarrow> i = j"
  unfolding linked_def by blast

lemma linkedI:
  assumes "\<And>i. i < length cs \<Longrightarrow> active (cs ! i) \<Longrightarrow> co_feeder (cs ! i) < length fes \<and>
      fe_source (fes ! co_feeder (cs ! i)) = co_source (cs ! i) \<and> \<not> fe_closed (fes ! co_feeder (cs ! i))"
    and "\<And>i j. i < length cs \<Longrightarrow> j < length cs \<Longrightarrow> active (cs ! i) \<Longrightarrow> active (cs ! j) \<Longrightarrow>
      co_feeder (cs ! i) = co_feeder (cs ! j) \<Longrightarrow> i = j"
    and "\<And>fe. fe \<in> set fes \<Longrightarrow> feeder_ok fe"
  shows "linked cs fes"
  using assms unfolding linked_def by blast

lemma linked_mono:
  assumes "linked cs fes" and "length cs' = length cs"
    and "\<And>k. k < length cs \<Longrightarrow> active (cs' ! k) \<Longrightarrow>
      active (cs ! k) \<and> co_feeder (cs' ! k) = co_feeder (cs ! k) \<and> co_source (cs' ! k) = co_source (cs ! k)"
  shows "linked cs' fes"
proof (rule linkedI)
  show "i = j" if "i < length cs'" "j < length cs'" "active (cs' ! i)" "active (cs' ! j)"
    "co_feeder (cs' ! i) = co_feeder (cs' ! j)" for i j
    using that assms(2,3) linked_inj [OF assms(1)] by metis
qed (use assms linkedD [OF assms(1)] linked_ok [OF assms(1)] in auto)

lemma linked_conn:
  assumes "linked cs fes" and "active c \<Longrightarrow> active (cs ! i) \<and> co_feeder c = co_feeder (cs ! i) \<and> co_source c = co_source (cs ! i)"
  shows "linked (cs[i := c]) fes"
proof (rule linked_mono [OF assms(1)])
  show "active (cs ! k) \<and> co_feeder (cs[i := c] ! k) = co_feeder (cs ! k) \<and> co_source (cs[i := c] ! k) = co_source (cs ! k)"
    if "k < length cs" "active (cs[i := c] ! k)" for k
    using that assms(2) by (cases "k = i") simp_all
qed simp

lemma linked_feeder:
  assumes "linked cs fes" and "fe_source fe = fe_source (fes ! j)" and "fe_closed fe = fe_closed (fes ! j)" and "feeder_ok fe"
  shows "linked cs (fes[j := fe])"
proof (cases "j < length fes")
  case True
  with assms show ?thesis
    unfolding linked_def by (auto simp: nth_list_update dest!: set_update_subset_insert [THEN subsetD])
qed (use assms(1) in \<open>simp add: list_update_beyond\<close>)

lemma linked_close:
  assumes "linked cs fes" and "\<And>k. k < length cs \<Longrightarrow> active (cs ! k) \<Longrightarrow> co_feeder (cs ! k) \<noteq> j"
  shows "linked cs (fes[j := (fes ! j)\<lparr>fe_closed := True\<rparr>])"
proof (cases "j < length fes")
  case True
  then have "feeder_ok ((fes ! j)\<lparr>fe_closed := True\<rparr>)"
    using linked_ok [OF assms(1) nth_mem] by (simp add: feeder_ok_def)
  then have "feeder_ok fe" if "fe \<in> set (fes[j := (fes ! j)\<lparr>fe_closed := True\<rparr>])" for fe
    using that linked_ok [OF assms(1)] by (auto dest!: set_update_subset_insert [THEN subsetD])
  moreover have "fes[j := fe] ! co_feeder (cs ! k) = fes ! co_feeder (cs ! k)" if "k < length cs" "active (cs ! k)" for k fe
    using assms(2) [OF that] by simp
  ultimately show ?thesis
    by (intro linkedI) (use linkedD [OF assms(1)] linked_inj [OF assms(1)] in auto)
qed (use assms(1) in \<open>simp add: list_update_beyond\<close>)

lemma linked_release:
  assumes "linked cs fes" and "i < length cs" and "active (cs ! i)" and "\<not> active c"
  shows "linked (cs[i := c]) (fes[co_feeder (cs ! i) := (fes ! co_feeder (cs ! i))\<lparr>fe_closed := True\<rparr>])"
proof (rule linked_close)
  show "linked (cs[i := c]) fes" using assms(4) by (intro linked_conn [OF assms(1)]) simp
  have "co_feeder (cs ! k) \<noteq> co_feeder (cs ! i)" if "k < length cs" "k \<noteq> i" "active (cs ! k)" for k
    using that assms(1-3) unfolding linked_def by blast
  with assms(4) show "co_feeder (cs[i := c] ! k) \<noteq> co_feeder (cs ! i)" if "k < length (cs[i := c])" "active (cs[i := c] ! k)" for k
    using that by (cases "k = i") simp_all
qed

lemma linked_attempt:
  assumes "linked cs fes" and "i < length cs" and "fe_source fe = co_source (cs ! i)" and "\<not> fe_closed fe" and "feeder_ok fe"
  shows "linked (cs[i := (cs ! i)\<lparr>co_phase := Connecting, co_feeder := length fes\<rparr>]) (fes @ [fe])"
  using assms unfolding linked_def by (auto simp: nth_list_update nth_append)

lemma linked_append: "linked cs fes \<Longrightarrow> \<forall>c \<in> set cs'. \<not> active c \<Longrightarrow> linked (cs @ cs') fes"
  unfolding linked_def by (auto simp: nth_append)

section \<open>The table of connection tasks\<close>

definition conn_inv :: "('cert, 'uri, 'addr, 'bytes) client_env \<Rightarrow> client_system \<Rightarrow> bool" where
  "conn_inv ev s \<longleftrightarrow>
     linked (cs_conns s) (cs_feeders s) \<and> client_inv (cs_client s) \<and> length (cs_conns s) = cl_spawned (cs_client s) \<and>
     (\<forall>(url, i) \<in> set (cl_tasks (cs_client s)). co_source (cs_conns s ! i) = url_source ev url) \<and>
     (\<forall>i < length (cs_conns s). co_phase (cs_conns s ! i) = Stopped \<longrightarrow> i \<in> set (cl_aborted (cs_client s)))"

text \<open>The tasks started for a list of servers are numbered in its order.\<close>

lemma build_tasks_table:
  assumes "build_tasks parse_uri urls cl = Done cl'" and "hm_ok (cl_tasks cl)"
  shows "cl_spawned cl' = cl_spawned cl + length urls \<and> cl_aborted cl' = cl_aborted cl \<and>
     set (cl_tasks cl') \<subseteq> set (cl_tasks cl) \<union> set (zip urls [cl_spawned cl..<cl_spawned cl + length urls])"
  using assms
proof (induction urls arbitrary: cl)
  case (Cons u us)
  let ?cl = "cl\<lparr>cl_tasks := hm_insert u (cl_spawned cl) (cl_tasks cl), cl_spawned := cl_spawned cl + 1\<rparr>"
  have rest: "build_tasks parse_uri us ?cl = Done cl'"
    using Cons.prems(1) by (auto elim!: build_tasks_ConsE split: option.splits)
  have "set (cl_tasks ?cl) \<subseteq> insert (u, cl_spawned cl) (set (cl_tasks cl))"
    using Cons.prems(2) by (auto simp: set_hm_insert)
  with Cons.IH [OF rest] Cons.prems(2) show ?case by (auto simp: upt_conv_Cons simp del: upt_Suc)
qed simp

lemma abort_removed_table:
  "cl_spawned (abort_removed gs cl) = cl_spawned cl \<and> set (cl_aborted cl) \<subseteq> set (cl_aborted (abort_removed gs cl)) \<and>
     set (cl_tasks (abort_removed gs cl)) \<subseteq> set (cl_tasks cl)"
proof (induction gs arbitrary: cl)
  case (Cons g gs)
  show ?case
  proof (cases "hm_get (cl_tasks cl) g")
    case (Some t)
    with Cons [of "cl\<lparr>cl_tasks := hm_remove g (cl_tasks cl), cl_aborted := cl_aborted cl @ [t]\<rparr>"]
    show ?thesis by (auto simp: set_hm_remove)
  qed (use Cons in simp)
qed simp

lemma reload_table:
  assumes "reload parse_uri new cl = Done cl'" and "client_inv cl"
  shows "cl_spawned cl' = cl_spawned cl + length (filter (\<lambda>x. x \<notin> set (cl_urls cl)) new) \<and> set (cl_aborted cl) \<subseteq> set (cl_aborted cl') \<and>
     set (cl_tasks cl') \<subseteq> set (cl_tasks cl) \<union>
       set (zip (filter (\<lambda>x. x \<notin> set (cl_urls cl)) new) [cl_spawned cl..<cl_spawned cl + length (filter (\<lambda>x. x \<notin> set (cl_urls cl)) new)])"
proof -
  let ?gone = "filter (\<lambda>x. x \<notin> set new) (cl_urls cl)" and ?add = "filter (\<lambda>x. x \<notin> set (cl_urls cl)) new"
  let ?cl2 = "(abort_removed ?gone cl)\<lparr>cl_urls := new\<rparr>"
  have build: "build_tasks parse_uri ?add ?cl2 = Done cl'"
    using assms(1) by (auto simp: reload_def Let_def split: if_splits)
  have "hm_ok (cl_tasks ?cl2)"
    using abort_removed_spec [of cl ?gone] assms(2) by (auto simp: client_inv_def handles_ok_def intro: hm_ok_filter)
  from build_tasks_table [OF build this] abort_removed_table [of ?gone cl] show ?thesis by auto
qed

lemma sources_nth: "map co_source cs' = map co_source cs \<Longrightarrow> i < length cs \<Longrightarrow> co_source (cs' ! i) = co_source (cs ! i)"
  by (metis length_map nth_map)

lemma table_bound: "client_inv cl \<Longrightarrow> (url, i) \<in> set (cl_tasks cl) \<Longrightarrow> i < cl_spawned cl \<and> i \<notin> set (cl_aborted cl)"
  by (force simp: client_inv_def handles_ok_def running_tasks_def)

text \<open>Events other than SIGHUP: the table stays, and a task that stops was aborted.\<close>

lemma conn_inv_frame:
  assumes inv: "conn_inv ev s" and "cs_client s' = cs_client s" and src: "map co_source (cs_conns s') = map co_source (cs_conns s)"
    and lnk: "linked (cs_conns s') (cs_feeders s')"
    and stop: "\<And>k. k < length (cs_conns s) \<Longrightarrow> co_phase (cs_conns s' ! k) = Stopped \<Longrightarrow>
      co_phase (cs_conns s ! k) = Stopped \<or> k \<in> set (cl_aborted (cs_client s))"
  shows "conn_inv ev s'"
proof -
  have len: "length (cs_conns s') = length (cs_conns s)" using arg_cong [OF src, of length] by simp
  have "co_source (cs_conns s' ! i) = url_source ev url" if "(url, i) \<in> set (cl_tasks (cs_client s))" for url i
    using that inv table_bound [of "cs_client s" url i] sources_nth [OF src, of i] unfolding conn_inv_def by auto
  moreover have "k \<in> set (cl_aborted (cs_client s))" if "k < length (cs_conns s)" "co_phase (cs_conns s' ! k) = Stopped" for k
    using stop [OF that] that inv by (auto simp: conn_inv_def)
  ultimately show ?thesis using inv assms(2) lnk len unfolding conn_inv_def by auto
qed

lemma linked_attempt_ends:
  assumes "linked (cs_conns s) (cs_feeders s)" and "i < length (cs_conns s)" and "active (cs_conns s ! i)"
  shows "linked (cs_conns (attempt_ends i r s)) (cs_feeders (attempt_ends i r s))"
  using linked_release [OF assms, of "case r of Inr _ \<Rightarrow> (cs_conns s ! i)\<lparr>co_phase := Stopped\<rparr>
      | Inl err \<Rightarrow> (cs_conns s ! i)\<lparr>co_retry := co_retry (cs_conns s ! i) + 1, co_phase := Idle (retry_delay (co_retry (cs_conns s ! i) + 1))\<rparr>"]
  by (auto simp: attempt_ends_def conns_upd feeders_upd active_def split: sum.splits)

lemma conn_inv_ends:
  assumes inv: "conn_inv ev s" and "i < length (cs_conns s)" and "active (cs_conns s ! i)" and "r = Inl err"
  shows "conn_inv ev (attempt_ends i r s)"
proof (rule conn_inv_frame [OF inv])
  show "linked (cs_conns (attempt_ends i r s)) (cs_feeders (attempt_ends i r s))"
    using inv assms(2,3) by (intro linked_attempt_ends) (simp_all add: conn_inv_def)
  show "co_phase (cs_conns s ! k) = Stopped \<or> k \<in> set (cl_aborted (cs_client s))"
    if "k < length (cs_conns s)" "co_phase (cs_conns (attempt_ends i r s) ! k) = Stopped" for k
    using that assms(4) by (cases "k = i") (simp_all add: attempt_ends_def conns_upd)
qed simp_all

lemma conn_inv_quiet_conn:
  assumes inv: "conn_inv ev s" and "co_source c = co_source (cs_conns s ! i)" and "co_feeder c = co_feeder (cs_conns s ! i)"
    and "active c \<Longrightarrow> active (cs_conns s ! i)" and "co_phase c = Stopped \<Longrightarrow> co_phase (cs_conns s ! i) = Stopped \<or> i \<in> set (cl_aborted (cs_client s))"
    and "cs_conns s' = (cs_conns s)[i := c]" and "cs_feeders s' = cs_feeders s" and "cs_client s' = cs_client s"
  shows "conn_inv ev s'"
proof (rule conn_inv_frame [OF inv])
  show "linked (cs_conns s') (cs_feeders s')"
    unfolding assms(6,7) using inv assms(2-4) by (intro linked_conn) (simp_all add: conn_inv_def)
  show "co_phase (cs_conns s ! k) = Stopped \<or> k \<in> set (cl_aborted (cs_client s))"
    if "k < length (cs_conns s)" "co_phase (cs_conns s' ! k) = Stopped" for k
    using that assms(5,6) by (cases "k = i") simp_all
qed (simp_all add: assms)

lemma conn_inv_feeder:
  assumes inv: "conn_inv ev s" and "fe_source fe = fe_source (cs_feeders s ! j)" and "fe_closed fe = fe_closed (cs_feeders s ! j)"
    and "feeder_ok fe" and "cs_feeders s' = (cs_feeders s)[j := fe]" and "cs_conns s' = cs_conns s" and "cs_client s' = cs_client s"
  shows "conn_inv ev s'"
  by (rule conn_inv_frame [OF inv])
     (use assms in \<open>auto simp: conn_inv_def intro: linked_feeder\<close>)

lemma conn_inv_stream:
  assumes inv: "conn_inv ev s" and i: "i < length (cs_conns s)" and st: "co_phase (cs_conns s ! i) = Streaming"
    and e: "e \<noteq> Metrics_recv None"
  shows "conn_inv ev (stream_step i e s)"
proof -
  let ?s = "(upd_conn i (co_upstream_update (\<lambda>_. co_upstream (cs_conns s ! i) @ upstream_of e)) s)
      \<lparr>cs_queue := cs_queue s @ transactions_of (co_source (cs_conns s ! i)) e\<rparr>"
  have s1: "conn_inv ev ?s"
    by (rule conn_inv_quiet_conn [OF inv, where i = i and c = "(cs_conns s ! i)\<lparr>co_upstream := co_upstream (cs_conns s ! i) @ upstream_of e\<rparr>"])
       (simp_all add: conns_upd active_def)
  have "active (cs_conns ?s ! i)" using i st by (simp add: conns_upd active_def)
  note ends = conn_inv_ends [OF s1 _ this]
  show ?thesis
  proof (cases e)
    case (Metrics_recv m)
    with e s1 show ?thesis by (cases m) (simp_all add: stream_step_conv Let_def)
  next
    case (Response_recv r)
    with ends s1 i show ?thesis by (cases r) (simp_all add: stream_step_conv Let_def)
  qed
qed

lemma conn_inv_attempt:
  assumes inv: "conn_inv ev s" and i: "i < length (cs_conns s)" and ph: "co_phase (cs_conns s ! i) = Idle d"
  shows "conn_inv ev (spawn_grpc_connection_attempt i s)"
proof (rule conn_inv_frame [OF inv])
  let ?s = "spawn_grpc_connection_attempt i s"
  have cs: "cs_conns ?s = (cs_conns s)[i := (cs_conns s ! i)\<lparr>co_phase := Connecting, co_feeder := length (cs_feeders s)\<rparr>]"
    "cs_feeders ?s = cs_feeders s @ [spawn_feeder (co_source (cs_conns s ! i))]"
    by (simp_all add: spawn_grpc_connection_attempt_def conns_upd)
  show "linked (cs_conns ?s) (cs_feeders ?s)"
    unfolding cs using inv i by (intro linked_attempt) (simp_all add: conn_inv_def spawn_feeder_def feeder_ok_def)
  show "map co_source (cs_conns ?s) = map co_source (cs_conns s)" unfolding cs by simp
  show "co_phase (cs_conns s ! k) = Stopped \<or> k \<in> set (cl_aborted (cs_client s))"
    if "k < length (cs_conns s)" "co_phase (cs_conns ?s ! k) = Stopped" for k
    using that i unfolding cs by (cases "k = i") simp_all
qed (simp add: spawn_grpc_connection_attempt_def)

lemma conn_inv_abort:
  assumes inv: "conn_inv ev s" and i: "i < length (cs_conns s)" and ab: "i \<in> set (cl_aborted (cs_client s))"
    and ex: "cl_exec ev (Aborted i) s = Done s'"
  shows "conn_inv ev s'"
proof (cases "active (cs_conns s ! i)")
  case True
  let ?c = "(cs_conns s ! i)\<lparr>co_phase := Stopped\<rparr>" and ?j = "co_feeder (cs_conns s ! i)"
  have s': "cs_conns s' = (cs_conns s)[i := ?c]" "cs_feeders s' = (cs_feeders s)[?j := (cs_feeders s ! ?j)\<lparr>fe_closed := True\<rparr>]"
    "cs_client s' = cs_client s"
    using ex True by (auto simp: active_def conns_upd feeders_upd split: conn_phase.splits)
  show ?thesis
  proof (rule conn_inv_frame [OF inv])
    show "linked (cs_conns s') (cs_feeders s')"
      unfolding s' using inv i True by (intro linked_release) (simp_all add: conn_inv_def active_def)
    show "co_phase (cs_conns s ! k) = Stopped \<or> k \<in> set (cl_aborted (cs_client s))"
      if "k < length (cs_conns s)" "co_phase (cs_conns s' ! k) = Stopped" for k
      using that ab unfolding s' by (cases "k = i") simp_all
  qed (simp_all add: s')
next
  case False
  with ex ab show ?thesis
    by (intro conn_inv_quiet_conn [OF inv, where i = i and c = "(cs_conns s ! i)\<lparr>co_phase := Stopped\<rparr>"])
       (auto simp: active_def conns_upd split: conn_phase.splits)
qed

lemma conn_inv_sighup:
  assumes inv: "conn_inv ev s" and ex: "client_sighup ev urls s = Done s'"
  shows "conn_inv ev s'"
proof (cases urls)
  case (Inl err)
  with ex inv show ?thesis by (auto simp: client_sighup_def handle_sighup_def conn_inv_def)
next
  case (Inr new)
  let ?add = "filter (\<lambda>x. x \<notin> set (cl_urls (cs_client s))) new" and ?n = "cl_spawned (cs_client s)"
  from ex Inr obtain cl where cl: "reload (ce_parse_uri ev) new (cs_client s) = Done cl"
    and s': "s' = s\<lparr>cs_client := cl, cs_conns := cs_conns s @ map (new_conn \<circ> url_source ev) ?add\<rparr>"
    by (auto simp: client_sighup_def handle_sighup_def)
  have inv1: "client_inv (cs_client s)" and len: "length (cs_conns s) = ?n" using inv by (simp_all add: conn_inv_def)
  note tab = reload_table [OF cl inv1]
  have "linked (cs_conns s') (cs_feeders s')"
    using inv linked_append [of "cs_conns s" "cs_feeders s" "map (new_conn \<circ> url_source ev) ?add"]
    by (auto simp: s' conn_inv_def new_conn_def active_def)
  moreover have "co_source (cs_conns s' ! i) = url_source ev url" if "(url, i) \<in> set (cl_tasks cl)" for url i
  proof (cases "(url, i) \<in> set (cl_tasks (cs_client s))")
    case True
    with table_bound [OF inv1 True] inv len show ?thesis by (auto simp: s' conn_inv_def nth_append)
  next
    case False
    with that tab obtain k where "k < length ?add" "url = ?add ! k" "i = ?n + k" by (fastforce simp: in_set_zip)
    then show ?thesis using len by (simp add: s' nth_append new_conn_def)
  qed
  moreover have "i \<in> set (cl_aborted cl)" if "i < length (cs_conns s')" "co_phase (cs_conns s' ! i) = Stopped" for i
    using that tab inv len by (cases "i < ?n") (auto simp: s' conn_inv_def nth_append new_conn_def)
  ultimately show ?thesis using reload_spec [OF inv1 cl] tab len by (auto simp: conn_inv_def s')
qed

lemma conn_exec:
  assumes inv: "conn_inv ev s" and en: "cl_enabled e s" and ex: "cl_exec ev e s = Done s'"
  shows "conn_inv ev s'"
proof (cases e)
  case (Attempt i)
  with ex en conn_inv_attempt [OF inv] show ?thesis by (auto split: conn_phase.splits)
next
  case (Attempt_result i r)
  with en have i: "i < length (cs_conns s)" "co_phase (cs_conns s ! i) = Connecting" by simp_all
  show ?thesis
  proof (cases r)
    case (Inl err)
    with ex Attempt_result conn_inv_ends [OF inv i(1)] i(2) show ?thesis by (auto simp: active_def)
  next
    case (Inr opened)
    with ex Attempt_result i show ?thesis
      by (intro conn_inv_quiet_conn [OF inv, where i = i and c = "(cs_conns s ! i)\<lparr>co_phase := Streaming, co_upstream := []\<rparr>"])
         (auto simp: active_def conns_upd)
  qed
next
  case (Response i r)
  with ex en conn_inv_stream [OF inv] show ?thesis by auto
next
  case (Metrics_take i)
  let ?j = "co_feeder (cs_conns s ! i)"
  have i: "i < length (cs_conns s)" "co_phase (cs_conns s ! i) = Streaming" using en Metrics_take by simp_all
  have lnk: "linked (cs_conns s) (cs_feeders s)" using inv by (simp add: conn_inv_def)
  have "active (cs_conns s ! i)" using i(2) by (simp add: active_def)
  note j = linkedD [OF lnk i(1) this] and ok = linked_ok [OF lnk nth_mem [OF linkedD(1) [OF lnk i(1) this]]]
  from en Metrics_take j(3) ok obtain m rest where ch: "fe_channel (cs_feeders s ! ?j) = m # rest"
    by (cases "fe_channel (cs_feeders s ! ?j)") (auto simp: feeder_ok_def)
  let ?s = "upd_feeder ?j (fe_channel_update (\<lambda>_. rest)) s"
  have "conn_inv ev ?s"
    by (rule conn_inv_feeder [OF inv, where j = ?j and fe = "(cs_feeders s ! ?j)\<lparr>fe_channel := rest\<rparr>"])
       (use ok ch in \<open>simp_all add: feeders_upd feeder_ok_def\<close>)
  from conn_inv_stream [OF this, of i "Metrics_recv (Some m)"] ex Metrics_take i ch show ?thesis by (simp add: Let_def)
next
  case (Aborted i)
  with conn_inv_abort [OF inv _ _ ex [unfolded Aborted]] en show ?thesis by simp
next
  case (Feeder_round j memory)
  have "feeder_ok (cs_feeders s ! j)" using inv en Feeder_round by (auto simp: conn_inv_def intro: linked_ok)
  with ex en Feeder_round show ?thesis
    by (intro conn_inv_feeder [OF inv, where j = j and fe = "cs_feeders s' ! j"])
       (auto simp: feeder_step_def feeder_round_def Let_def feeders_upd feeder_ok_def split: if_splits)
next
  case (Feeder_send j)
  have "feeder_ok (cs_feeders s ! j)" using inv en Feeder_send by (auto simp: conn_inv_def intro: linked_ok)
  with ex en Feeder_send show ?thesis
    by (intro conn_inv_feeder [OF inv, where j = j and fe = "cs_feeders s' ! j"])
       (auto simp: feeder_send_def feeders_upd feeder_ok_def split: feeder_phase.splits)
next
  case Forward
  with ex inv show ?thesis by (auto simp: conn_inv_def split: list.splits)
next
  case (Forward_task te)
  with ex inv show ?thesis by (auto simp: conn_inv_def)
next
  case (Sighup urls)
  with ex conn_inv_sighup [OF inv] show ?thesis by simp
next
  case (Exporter x)
  with ex have "exporter_step ev x s = Done s'" by simp
  from exporter_step_Done [OF this] obtain b where "s' = s\<lparr>cs_exporter := b\<rparr>" by blast
  with inv show ?thesis by (simp add: conn_inv_def)
next
  case Signals_end
  with ex inv show ?thesis by simp
qed

interpretation cl_conns: preserved "cl_step ev" "on_alive (conn_inv ev)" for ev
  by (rule cl_machine.preservedI) (rule conn_exec)

lemma conn_start:
  assumes "client_system_start ev r = Done s"
  shows "conn_inv ev s"
proof -
  from assms obtain cl where cl: "client_start (ce_parse_uri ev) r = Done cl"
    and s: "cs_client s = cl" "cs_conns s = map (new_conn \<circ> url_source ev) (cl_urls cl)" "cs_feeders s = []"
    by (auto simp: client_system_start_def)
  from cl obtain urls where r: "r = Inr urls" by (cases r) (auto simp: client_start_def)
  have urls: "cl_urls cl = urls" and inv: "client_inv cl" using client_inv_start [OF cl] r by simp_all
  have tab: "cl_spawned cl = length urls" "set (cl_tasks cl) \<subseteq> set (zip urls [0..<length urls])"
    using build_tasks_table [of "ce_parse_uri ev" urls _ cl] cl r by (fastforce simp: client_start_def)+
  have "co_source (cs_conns s ! i) = url_source ev url" if "(url, i) \<in> set (cl_tasks cl)" for url i
    using that tab by (fastforce simp: s urls in_set_zip new_conn_def)
  moreover have "linked (cs_conns s) (cs_feeders s)" by (auto simp: linked_def s new_conn_def active_def)
  ultimately show ?thesis using inv tab by (auto simp: conn_inv_def s urls new_conn_def)
qed

section \<open>Tasks without a handle\<close>

text \<open>A task is orphaned when it runs and no handle names it: nothing can abort it any more.\<close>

definition orphaned :: "nat \<Rightarrow> client \<Rightarrow> bool" where
  "orphaned k cl \<longleftrightarrow> k < cl_spawned cl \<and> k \<notin> snd ` set (cl_tasks cl) \<and> k \<notin> set (cl_aborted cl)"

lemma abort_removed_handles:
  "set (cl_aborted (abort_removed gs cl)) \<subseteq> set (cl_aborted cl) \<union> snd ` set (cl_tasks cl)"
proof (induction gs arbitrary: cl)
  case (Cons g gs)
  show ?case
  proof (cases "hm_get (cl_tasks cl) g")
    case (Some t)
    then have "t \<in> snd ` set (cl_tasks cl)" by (force simp: hm_get_def dest: map_of_SomeD)
    moreover have "snd ` set (hm_remove g (cl_tasks cl)) \<subseteq> snd ` set (cl_tasks cl)" by (auto simp: set_hm_remove)
    moreover note Cons [of "cl\<lparr>cl_tasks := hm_remove g (cl_tasks cl), cl_aborted := cl_aborted cl @ [t]\<rparr>"]
    ultimately have "set (cl_aborted (abort_removed gs (cl\<lparr>cl_tasks := hm_remove g (cl_tasks cl), cl_aborted := cl_aborted cl @ [t]\<rparr>))) \<subseteq>
        set (cl_aborted cl) \<union> snd ` set (cl_tasks cl)" by simp blast
    with Some show ?thesis by simp
  qed (use Cons in simp)
qed simp

lemma orphaned_reload:
  assumes "reload parse_uri new cl = Done cl'" and "client_inv cl" and "orphaned k cl"
  shows "orphaned k cl'"
proof -
  let ?gone = "filter (\<lambda>x. x \<notin> set new) (cl_urls cl)"
  note tab = reload_table [OF assms(1,2)]
  have "set (cl_aborted cl') \<subseteq> set (cl_aborted cl) \<union> snd ` set (cl_tasks cl)"
  proof -
    from assms(1) have "build_tasks parse_uri (filter (\<lambda>x. x \<notin> set (cl_urls cl)) new) ((abort_removed ?gone cl)\<lparr>cl_urls := new\<rparr>) = Done cl'"
      by (auto simp: reload_def Let_def split: if_splits)
    from build_tasks_table [OF this] abort_removed_spec [of cl ?gone] assms(2) abort_removed_handles [of ?gone cl]
    show ?thesis by (auto simp: client_inv_def handles_ok_def intro: hm_ok_filter)
  qed
  moreover have "k \<notin> snd ` set (cl_tasks cl')"
  proof
    assume "k \<in> snd ` set (cl_tasks cl')"
    then obtain v where "(v, k) \<in> set (cl_tasks cl')" by auto
    with tab assms(3) have "(v, k) \<in> set (cl_tasks cl)" by (auto simp: orphaned_def dest!: set_zip_rightD)
    with assms(3) show False by (force simp: orphaned_def)
  qed
  ultimately show ?thesis using assms(3) tab by (auto simp: orphaned_def)
qed

text \<open>An earlier handle for a server is replaced by a later one.\<close>

lemma build_tasks_replaces:
  assumes "build_tasks parse_uri urls cl = Done cl'" and "hm_ok (cl_tasks cl)" and "(v, k) \<in> set (cl_tasks cl')"
  shows "cl_spawned cl \<le> k \<or> (v, k) \<in> set (cl_tasks cl) \<and> v \<notin> set urls"
  using assms
proof (induction urls arbitrary: cl)
  case (Cons u us)
  let ?cl = "cl\<lparr>cl_tasks := hm_insert u (cl_spawned cl) (cl_tasks cl), cl_spawned := cl_spawned cl + 1\<rparr>"
  have "build_tasks parse_uri us ?cl = Done cl'"
    using Cons.prems(1) by (auto elim!: build_tasks_ConsE split: option.splits)
  from Cons.IH [OF this] Cons.prems(2,3) show ?case by (auto simp: set_hm_insert)
qed simp

lemma build_tasks_orphans:
  assumes "build_tasks parse_uri urls cl = Done cl'" and "handles_ok cl" and "i < j" and "j < length urls" and "urls ! i = urls ! j"
  shows "orphaned (cl_spawned cl + i) cl'"
proof -
  have "cl_spawned cl + i \<notin> snd ` set (cl_tasks cl')"
    using assms
  proof (induction urls arbitrary: cl i j)
    case (Cons u us)
    let ?cl = "cl\<lparr>cl_tasks := hm_insert u (cl_spawned cl) (cl_tasks cl), cl_spawned := cl_spawned cl + 1\<rparr>"
    have one: "build_tasks parse_uri [u] cl = Done ?cl" and rest: "build_tasks parse_uri us ?cl = Done cl'"
      using Cons.prems(1) by (auto elim!: build_tasks_ConsE split: option.splits)
    have ok: "hm_ok (cl_tasks cl)" "\<forall>x \<in> set (cl_tasks cl). snd x < cl_spawned cl"
      using Cons.prems(2) by (auto simp: handles_ok_def running_tasks_def)
    show ?case
    proof (cases i)
      case 0
      then have "u \<in> set us" using Cons.prems(3-5) by (cases j) (auto simp: nth_Cons)
      with build_tasks_replaces [OF rest] ok 0 show ?thesis by (fastforce simp: set_hm_insert)
    next
      case (Suc i')
      then obtain j' where "j = Suc j'" using Cons.prems(3) by (cases j) auto
      with Suc Cons.IH [OF rest _ , of i' j'] Cons.prems(3-5) conjunct1 [OF build_tasks_spec [OF one Cons.prems(2)]]
      show ?thesis by simp
    qed
  qed simp
  moreover have "hm_ok (cl_tasks cl)" "\<forall>x \<in> set (cl_aborted cl). x < cl_spawned cl" using assms(2) by (auto simp: handles_ok_def)
  ultimately show ?thesis using build_tasks_table [OF assms(1)] assms(3,4) by (auto simp: orphaned_def)
qed

lemma orphaned_exec:
  assumes "conn_inv ev s" and "cl_exec ev e s = Done s'" and "orphaned k (cs_client s)"
  shows "orphaned k (cs_client s')"
proof (cases e)
  case (Sighup urls)
  have inv: "client_inv (cs_client s)" using assms(1) by (simp add: conn_inv_def)
  from Sighup assms(2,3) orphaned_reload [OF _ inv] show ?thesis
    by (cases urls) (auto simp: client_sighup_def handle_sighup_def)
next
  case (Attempt_result i r)
  with assms show ?thesis by (cases r) auto
next
  case (Exporter x)
  with assms(2) have "exporter_step ev x s = Done s'" by simp
  from exporter_step_Done [OF this] obtain b where "s' = s\<lparr>cs_exporter := b\<rparr>" by blast
  with assms(3) show ?thesis by simp
qed (use assms in \<open>auto simp: spawn_grpc_connection_attempt_def stream_step_flow feeder_step_def feeder_send_def
  Let_def split: list.splits option.splits feeder_phase.splits conn_phase.splits\<close>)

definition orphan_inv :: "('cert, 'uri, 'addr, 'bytes) client_env \<Rightarrow> nat \<Rightarrow> string \<Rightarrow> client_system \<Rightarrow> bool" where
  "orphan_inv ev k source s \<longleftrightarrow> conn_inv ev s \<and> orphaned k (cs_client s) \<and> co_source (cs_conns s ! k) = source"

lemma orphan_exec:
  assumes "orphan_inv ev k source s" and "cl_enabled e s" and "cl_exec ev e s = Done s'"
  shows "orphan_inv ev k source s'"
proof -
  have "k < length (cs_conns s)" using assms(1) by (simp add: orphan_inv_def conn_inv_def orphaned_def)
  from source_stays [OF assms(3) this] conn_exec [OF _ assms(2,3)] orphaned_exec [OF _ assms(3)] assms(1)
  show ?thesis by (simp add: orphan_inv_def)
qed

interpretation cl_orphan: preserved "cl_step ev" "on_alive (orphan_inv ev k source)" for ev k source
  by (rule cl_machine.preservedI) (rule orphan_exec)

lemma orphan_runs:
  assumes "orphan_inv ev k source s"
  shows "k < length (cs_conns s) \<and> co_source (cs_conns s ! k) = source \<and> co_phase (cs_conns s ! k) \<noteq> Stopped \<and>
    k \<notin> snd ` set (cl_tasks (cs_client s)) \<and> \<not> cl_enabled (Aborted k) s"
  using assms by (auto simp: orphan_inv_def conn_inv_def orphaned_def)

section \<open>Panics\<close>

lemma build_tasks_Panic: "(\<exists>err. build_tasks parse_uri urls cl = Panic err) \<longleftrightarrow> (\<exists>u \<in> set urls. parse_uri u = None)"
  by (induction urls arbitrary: cl) (auto split: option.splits)

lemma sighup_Panic:
  "(\<exists>err. client_sighup ev urls s = Panic err) \<longleftrightarrow>
     (\<exists>new. urls = Inr new \<and> (\<exists>u \<in> set new - set (cl_urls (cs_client s)). ce_parse_uri ev u = None))"
proof (cases urls)
  case (Inr new)
  let ?add = "filter (\<lambda>x. x \<notin> set (cl_urls (cs_client s))) new"
  have "(\<exists>err. client_sighup ev urls s = Panic err) \<longleftrightarrow> (\<exists>err. reload (ce_parse_uri ev) new (cs_client s) = Panic err)"
    by (cases "reload (ce_parse_uri ev) new (cs_client s)") (simp_all add: Inr client_sighup_def handle_sighup_def)
  also have "\<dots> \<longleftrightarrow> ?add \<noteq> [] \<and> (\<exists>u \<in> set ?add. ce_parse_uri ev u = None)"
    using build_tasks_Panic [of "ce_parse_uri ev" ?add] by (auto simp: reload_def Let_def)
  also have "\<dots> \<longleftrightarrow> (\<exists>u \<in> set new - set (cl_urls (cs_client s)). ce_parse_uri ev u = None)" by (auto simp: filter_empty_conv)
  finally show ?thesis by (simp add: Inr)
qed (simp add: client_sighup_def handle_sighup_def)

text \<open>The events that end the client.\<close>

fun client_fatal :: "('cert, 'uri, 'addr, 'bytes) client_env \<Rightarrow> client_event \<Rightarrow> client_system \<Rightarrow> bool" where
  "client_fatal ev (Attempt_result i r) s \<longleftrightarrow> (case r of Inr (Inl status) \<Rightarrow> True | _ \<Rightarrow> False)"
| "client_fatal ev (Forward_task (Begin k)) s \<longleftrightarrow>
     (case ft_tpu (fs_tasks (cs_fwd s) ! k) of
        None \<Rightarrow> False
      | Some tpu \<Rightarrow> ce_parse_tpu ev tpu = None \<or> ce_base64 ev (tr_data (ft_transaction (fs_tasks (cs_fwd s) ! k))) = None)"
| "client_fatal ev (Sighup urls) s \<longleftrightarrow>
     (case urls of Inr new \<Rightarrow> (\<exists>u \<in> set new - set (cl_urls (cs_client s)). ce_parse_uri ev u = None) | Inl err \<Rightarrow> False)"
| "client_fatal ev (Exporter e) s \<longleftrightarrow>
     (case e of
        Bind bound \<Rightarrow> \<not> bound
      | Request meth path \<Rightarrow> meth = ''GET'' \<and> path = [''metrics''] \<and>
          Option.bind (ce_encode ev (fs_ops (cs_fwd s))) (ce_utf8 ev) = None
      | Exporter_ended \<Rightarrow> True)"
| "client_fatal ev _ s \<longleftrightarrow> False"

lemma bind_Panic [simp]: "outcome_bind m (\<lambda>x. Done (f x)) = Panic err \<longleftrightarrow> m = Panic err"
  by (cases m) simp_all

lemma exporter_Panic:
  "cl_quits (Exporter e) = None \<Longrightarrow> (\<exists>err. exporter_step ev e s = Panic err) \<longleftrightarrow> client_fatal ev (Exporter e) s"
  by (cases e) (auto simp: exporter_step_def spawn_metrics_def collect_metrics_def unwrap_def split: option.splits)

lemma client_exec_Panic: "cl_quits e = None \<Longrightarrow> (\<exists>err. cl_exec ev e s = Panic err) \<longleftrightarrow> client_fatal ev e s"
proof (cases e)
  case (Attempt_result i r)
  then show ?thesis by (auto simp: mtx_stream_def split: sum.splits)
next
  case (Metrics_take i)
  then show ?thesis by (auto simp: Let_def split: list.splits)
next
  case Forward
  then show ?thesis by (auto split: list.splits)
next
  case (Forward_task te)
  then show ?thesis by (cases te) (auto simp: task_begin_def Let_def split: option.splits)
next
  case (Sighup urls)
  then show ?thesis unfolding Sighup cl_exec.simps sighup_Panic by (cases urls) simp_all
next
  case (Exporter x)
  moreover assume "cl_quits e = None"
  ultimately show ?thesis using exporter_Panic [of x ev s] by simp
qed simp_all

section \<open>A concrete run\<close>

definition cenv_demo :: "(unit, string, string, string) client_env" where
  "cenv_demo =
     \<lparr>ce_forwarder = Quic 1 None, ce_parse_uri = (\<lambda>u. if u = ''?'' then None else Some u), ce_host = Some, ce_parse_tpu = Some, ce_base64 = Some,
      ce_get_counter = (\<lambda>ops m src. word_of_nat (count_list ops (Count m src))),
      ce_get_permits = (\<lambda>ops. case List.map_filter (\<lambda>op. case op of Permits_set v \<Rightarrow> Some v | _ \<Rightarrow> None) (rev ops) of v # _ \<Rightarrow> v | [] \<Rightarrow> 0),
      ce_encode = (\<lambda>ops. Some []), ce_utf8 = (\<lambda>buf. Some [])\<rparr>"

definition client_demo :: client_system where
  "client_demo = (case client_system_start cenv_demo (Inr [''a'', ''b'']) of Done s \<Rightarrow> s | Panic err \<Rightarrow> undefined)"

definition client_events_demo :: "client_event list" where
  "client_events_demo =
     [Exporter (Bind True), Exporter (Request ''GET'' [''metrics'']), Attempt 0, Attempt 1, Attempt_result 1 (Inl ''refused''), Attempt_result 0 (Inr (Inr ())),
      Response 0 (Some (Inr (build_tx_message_envelope ''s'' ''d'' [''x'', ''y'']))), Forward,
      Forward_task (Begin 1), Forward_task (Acquire 1), Forward_task (Finish 1 True),
      Feeder_round 0 None, Feeder_send 0, Metrics_take 0, Sighup (Inr [''a'', ''c''])]"

lemma client_demo_start: "client_system_start cenv_demo (Inr [''a'', ''b'']) = Done client_demo"
  unfolding client_demo_def by (simp add: client_system_start_def client_start_def cenv_demo_def)

lemma client_demo_trace:
  "case cl_trace cenv_demo client_events_demo client_demo of
     Some s \<Rightarrow> length (cs_processed s) = 1 \<and> length (fs_tasks (cs_fwd s)) = 2 \<and> cl_urls (cs_client s) = [''a'', ''c''] \<and>
       length (co_upstream (cs_conns s ! 0)) = 1
   | None \<Rightarrow> False"
  by code_simp

lemma client_demo_run:
  obtains s where "run (cl_step cenv_demo) (Alive client_demo) client_events_demo (Alive s)"
    "length (cs_processed s) = 1" "length (fs_tasks (cs_fwd s)) = 2" "cl_urls (cs_client s) = [''a'', ''c'']"
  using client_demo_trace cl_machine.trace_run [of cenv_demo client_events_demo client_demo]
  by (auto split: option.splits)

section \<open>Properties\<close>

text \<open>
  C7. The client loses no transaction. In every run of the client, with any number of connections
  that come and go: the transactions that came with the answers of all servers, in the order of the
  answers and each labelled with the host of the server it came from, are those the forwarder
  has taken followed by those still in its queue. The forwarder has one task per target of each
  transaction it has taken, in that order, has counted each of them once as received, and never has
  more sends in flight than permits.
\<close>

theorem client_loses_nothing:
  assumes "client_system_start ev r = Done s0" and "run (cl_step ev) (Alive s0) es (Alive s)"
  shows "concat (map (\<lambda>e. case e of
         Response i (Some (Inr env)) \<Rightarrow>
           (case rs_transaction env of
              Some tx \<Rightarrow> [\<lparr>fo_source = co_source (cs_conns s ! i), fo_transaction = tx\<rparr>] | None \<Rightarrow> [])
       | _ \<Rightarrow> []) es) = cs_processed s @ cs_queue s \<and>
     map (\<lambda>t. (ft_source t, ft_transaction t, ft_tpu t)) (fs_tasks (cs_fwd s)) =
       concat (map (\<lambda>tx. map (\<lambda>t. (fo_source tx, fo_transaction tx, t)) (targets (ce_forwarder ev) tx)) (cs_processed s)) \<and>
     count_list (fs_ops (cs_fwd s)) (Count TX_RECEIVED_COUNT src) = length (filter (\<lambda>tx. fo_source tx = src) (cs_processed s)) \<and>
     in_phase Sending (cs_fwd s) + fs_available (cs_fwd s) = fs_max_permits (fwd_init (ce_forwarder ev))"
  (is "concat (map ?arr es) = _ \<and> ?rest")
proof
  have "?arr e = arrivals s e" for e
    by (cases "(s, e)" rule: arrivals.cases) simp_all
  then have arr: "?arr = arrivals s" by (rule ext)
  show "concat (map ?arr es) = cs_processed s @ cs_queue s"
    unfolding arr using arrivals_run [OF assms(2)] start_empty [OF assms(1)] by blast
  from cl_flow.inv_run [OF assms(2)] flow_start [OF assms(1)] have "flow_inv ev s" by simp
  then show ?rest
    by (auto simp: flow_inv_def fwd_inv_def jobs_def task_job_def [abs_def] counted_def from_source_def permits_def)
qed

theorem client_loses_nothing_witness:
  "\<exists>s. run (cl_step cenv_demo) (Alive client_demo) client_events_demo (Alive s) \<and>
     [\<lparr>fo_source = co_source (cs_conns s ! 0), fo_transaction = \<lparr>tr_data = ''d'', tr_signature = ''s'', tr_tpu = [''x'', ''y'']\<rparr>\<rparr>] =
       cs_processed s @ cs_queue s \<and>
     in_phase Sending (cs_fwd s) + fs_available (cs_fwd s) = 1"
proof -
  obtain s where s: "run (cl_step cenv_demo) (Alive client_demo) client_events_demo (Alive s)" "length (cs_processed s) = 1"
    by (rule client_demo_run)
  from client_loses_nothing [OF client_demo_start s(1)] s(1) show ?thesis
    by (auto simp: cenv_demo_def fwd_init_def client_events_demo_def build_tx_message_envelope_def)
qed

text \<open>
  C14. Every listed server keeps its connection. In every run of the client, each server of the
  current list has a connection task, for the host of its address, that has not stopped and can
  always go on: it waits for its next attempt, for the result of an attempt or for messages. A
  task stops only if it was aborted because its server left the list; in particular the end of the
  feeder, which would end a stream for good, never happens to a stream.
\<close>

theorem listed_servers_stay_connected:
  assumes "client_system_start ev r = Done s0" and "run (cl_step ev) (Alive s0) es (Alive s)" and "url \<in> set (cl_urls (cs_client s))"
  shows "\<exists>i. hm_get (cl_tasks (cs_client s)) url = Some i \<and> i < length (cs_conns s) \<and>
     co_source (cs_conns s ! i) = url_source ev url \<and> co_phase (cs_conns s ! i) \<noteq> Stopped \<and>
     (\<exists>e s'. e \<in> {Attempt i, Attempt_result i (Inl err), Response i None} \<and> cl_step ev (Alive s) e (Alive s'))"
proof -
  from cl_conns.inv_run [OF assms(2)] conn_start [OF assms(1)] have inv: "conn_inv ev s" by simp
  then have cl: "client_inv (cs_client s)" and len: "length (cs_conns s) = cl_spawned (cs_client s)" by (simp_all add: conn_inv_def)
  from cl assms(3) obtain i where "(url, i) \<in> set (cl_tasks (cs_client s))" by (force simp: client_inv_def)
  moreover from this cl have get: "hm_get (cl_tasks (cs_client s)) url = Some i"
    by (simp add: client_inv_def handles_ok_def hm_get_iff)
  moreover note table_bound [OF cl calculation(1)]
  ultimately have i: "i < length (cs_conns s)" "co_source (cs_conns s ! i) = url_source ev url" "co_phase (cs_conns s ! i) \<noteq> Stopped"
    using inv len by (auto simp: conn_inv_def)
  have "\<exists>e s'. e \<in> {Attempt i, Attempt_result i (Inl err), Response i None} \<and> cl_step ev (Alive s) e (Alive s')"
  proof (cases "co_phase (cs_conns s ! i)")
    case (Idle d)
    with i cl_machine.continues_iff [of "Attempt i" s ev] show ?thesis by auto
  next
    case Connecting
    with i cl_machine.continues_iff [of "Attempt_result i (Inl err)" s ev] show ?thesis by auto
  next
    case Streaming
    with i cl_machine.continues_iff [of "Response i None" s ev] show ?thesis by auto
  qed (use i in simp)
  with get i show ?thesis by blast
qed

theorem listed_servers_stay_connected_witness:
  "\<exists>s i. run (cl_step cenv_demo) (Alive client_demo) client_events_demo (Alive s) \<and>
     hm_get (cl_tasks (cs_client s)) ''c'' = Some i \<and> co_phase (cs_conns s ! i) \<noteq> Stopped"
proof -
  obtain s where s: "run (cl_step cenv_demo) (Alive client_demo) client_events_demo (Alive s)" "cl_urls (cs_client s) = [''a'', ''c'']"
    by (rule client_demo_run)
  from listed_servers_stay_connected [OF client_demo_start s(1), of "''c''" "''closed''"] s show ?thesis by auto
qed

text \<open>
  C20. What ends the client. In any state, the events that end the process with exit code 1 are
  exactly these: a server refuses the stream after the connection was made; a QUIC task starts with
  a TPU address that does not parse or a payload that is not base64; a reloaded list has a new entry
  that is not a URL; the metrics exporter cannot bind its address, is asked for metrics that cannot
  be encoded as UTF-8 text, or ends. The process ends with code 0 exactly when the signal handler is
  gone, and with no other code. Every other event leaves the client running.
\<close>

theorem client_exits_iff:
  assumes "cl_enabled e s"
  shows "(cl_step ev (Alive s) e (Exited 1) \<longleftrightarrow> client_fatal ev e s) \<and>
     (cl_step ev (Alive s) e (Exited 0) \<longleftrightarrow> e = Signals_end) \<and>
     (cl_step ev (Alive s) e (Exited c) \<longrightarrow> c = 0 \<or> c = 1) \<and>
     (\<not> client_fatal ev e s \<and> e \<noteq> Signals_end \<longrightarrow> (\<exists>s'. cl_step ev (Alive s) e (Alive s')))"
proof (cases "cl_quits e")
  case None
  then have "e \<noteq> Signals_end" by auto
  with None show ?thesis
    unfolding cl_machine.exits_iff [OF assms] cl_machine.continues_iff [OF assms] client_exec_Panic [OF None, symmetric]
    by (cases "cl_exec ev e s") auto
next
  case (Some code)
  then have "e = Signals_end \<and> code = 0 \<or> e = Exporter Exporter_ended \<and> code = 1"
    by (cases e rule: cl_quits.cases) (auto simp: spawn_metrics_def split: exporter_event.splits)
  then show ?thesis
    unfolding cl_machine.exits_iff [OF assms] cl_machine.continues_iff [OF assms] by (auto simp: spawn_metrics_def)
qed

theorem client_exits_iff_witness:
  "cl_step cenv_demo (Alive client_demo) (Sighup (Inr [''a'', ''?''])) (Exited 1) \<and>
     cl_step cenv_demo (Alive (client_demo\<lparr>cs_exporter := True\<rparr>)) (Exporter Exporter_ended) (Exited 1)"
proof -
  have "cl_enabled (Exporter Exporter_ended) (client_demo\<lparr>cs_exporter := True\<rparr>)" by simp
  moreover have "client_fatal cenv_demo (Exporter Exporter_ended) (client_demo\<lparr>cs_exporter := True\<rparr>)" by simp
  ultimately have "cl_step cenv_demo (Alive (client_demo\<lparr>cs_exporter := True\<rparr>)) (Exporter Exporter_ended) (Exited 1)"
    using client_exits_iff by blast
  moreover
  have "cl_enabled (Sighup (Inr [''a'', ''?''])) client_demo" by simp
  moreover have "client_fatal cenv_demo (Sighup (Inr [''a'', ''?''])) client_demo"
    by code_simp
  ultimately show ?thesis using client_exits_iff by blast
qed

text \<open>
  C23. What a feeder reports. With counters that count, in every run of the client, the message a
  feeder offers to a stream that still listens carries the number of transactions the forwarder has
  taken from its host, modulo \<open>2 ^ 64\<close>: from all connections to that host together, since the counters
  are labelled with the host only, so two servers behind one host name are both told the sum.
\<close>

theorem feeder_reports_by_host:
  assumes "client_system_start ev r = Done s0" and "run (cl_step ev) (Alive s0) es (Alive s)"
    and "\<And>ops m src. ce_get_counter ev ops m src = word_of_nat (count_list ops (Count m src))"
    and "i < length (cs_conns s)" and "co_phase (cs_conns s ! i) = Streaming" and "j = co_feeder (cs_conns s ! i)"
  shows "\<exists>msg m. fe_phase (cs_feeders (feeder_step ev j memory s) ! j) = Offering msg \<and> rq_metrics msg = Some m \<and>
     pm_tx_received m = word_of_nat (length (filter (\<lambda>tx. fo_source tx = co_source (cs_conns s ! i)) (cs_processed s))) \<and>
     length (fe_channel (cs_feeders s ! j)) \<le> METRICS_BUFFER_SIZE"
proof -
  from cl_conns.inv_run [OF assms(2)] conn_start [OF assms(1)] have lnk: "linked (cs_conns s) (cs_feeders s)" by (simp add: conn_inv_def)
  have act: "active (cs_conns s ! i)" using assms(5) by (simp add: active_def)
  note j = linkedD [OF lnk assms(4) act, folded assms(6)]
  from cl_flow.inv_run [OF assms(2)] flow_start [OF assms(1)] have "fwd_inv (ce_forwarder ev) (cs_processed s) (cs_fwd s)"
    by (simp add: flow_inv_def)
  then have "count_list (fs_ops (cs_fwd s)) (Count TX_RECEIVED_COUNT src) = length (filter (\<lambda>tx. fo_source tx = src) (cs_processed s))" for src
    by (simp add: fwd_inv_def counted_def from_source_def)
  with j linked_ok [OF lnk nth_mem [OF j(1)]] assms(3) show ?thesis
    by (simp add: feeder_step_def feeder_round_def Let_def feeders_upd feeder_ok_def)
qed

theorem feeder_reports_by_host_witness:
  "\<exists>s msg m. run (cl_step cenv_demo) (Alive client_demo) client_events_demo (Alive s) \<and>
     fe_phase (cs_feeders (feeder_step cenv_demo 0 None s) ! 0) = Offering msg \<and> rq_metrics msg = Some m \<and> pm_tx_received m = 1"
proof -
  let ?ev = cenv_demo
  have "case cl_trace ?ev client_events_demo client_demo of
     Some s \<Rightarrow> length (cs_conns s) = 3 \<and> co_phase (cs_conns s ! 0) = Streaming \<and> co_feeder (cs_conns s ! 0) = 0 \<and>
       filter (\<lambda>tx. fo_source tx = co_source (cs_conns s ! 0)) (cs_processed s) = cs_processed s \<and> length (cs_processed s) = 1
   | None \<Rightarrow> False" by code_simp
  then obtain s where s: "cl_trace ?ev client_events_demo client_demo = Some s"
    "length (cs_conns s) = 3" "co_phase (cs_conns s ! 0) = Streaming" "co_feeder (cs_conns s ! 0) = 0"
    "filter (\<lambda>tx. fo_source tx = co_source (cs_conns s ! 0)) (cs_processed s) = cs_processed s" "length (cs_processed s) = 1"
    by (auto split: option.splits)
  note run = cl_machine.trace_run [OF s(1)]
  have "ce_get_counter ?ev ops m src = word_of_nat (count_list ops (Count m src))" for ops m src by (simp add: cenv_demo_def)
  from feeder_reports_by_host [OF client_demo_start run this, of 0 0 None] s run show ?thesis by fastforce
qed

text \<open>
  The permits gauge is one for the whole process, and every feeder resets it after its own report:
  whatever the maximum was, after one feeder has sent, the next one offers a message that says zero.
\<close>

theorem feeders_hide_maximum:
  assumes "\<And>ops v. ce_get_permits ev (ops @ [Permits_set v]) = v" and "fe_phase (cs_feeders s ! j) = Offering msg"
    and "j' \<noteq> j" and "j' < length (cs_feeders s)" and "\<not> fe_closed (cs_feeders s ! j')"
  shows "\<exists>msg' m. fe_phase (cs_feeders (feeder_step ev j' memory (feeder_send j s)) ! j') = Offering msg' \<and>
     rq_metrics msg' = Some m \<and> pm_quic_forwarder_permits_used_max m = 0"
  using assms by (simp add: feeder_send_def feeder_step_def feeder_round_def feeders_upd Let_def)

text \<open>
  C40. A server listed twice leaks a connection. Whenever the list the client starts with names a
  server twice, the task started for the earlier entry can never be stopped: in every run of the
  client, whatever lists are loaded later, also ones that no longer name the server, no handle
  names that task and it is never aborted; it still belongs to the host of that server and has not
  stopped.
\<close>

theorem duplicate_server_leaks_task:
  assumes "client_system_start ev (Inr urls) = Done s0" and "i < j" and "j < length urls" and "urls ! i = urls ! j"
    and "run (cl_step ev) (Alive s0) es (Alive s)"
  shows "i < length (cs_conns s) \<and> co_source (cs_conns s ! i) = url_source ev (urls ! i) \<and>
     co_phase (cs_conns s ! i) \<noteq> Stopped \<and> i \<notin> snd ` set (cl_tasks (cs_client s)) \<and> \<not> cl_enabled (Aborted i) s"
proof -
  let ?cl = "\<lparr>cl_urls = urls, cl_tasks = [], cl_spawned = 0, cl_aborted = []\<rparr>"
  from assms(1) obtain cl where build: "build_tasks (ce_parse_uri ev) urls ?cl = Done cl"
    and s0: "cs_client s0 = cl" "cs_conns s0 = map (new_conn \<circ> url_source ev) (cl_urls cl)"
    by (auto simp: client_system_start_def client_start_def)
  have ok: "handles_ok ?cl" by (simp add: handles_ok_def)
  from build_tasks_orphans [OF build ok assms(2-4)] build_tasks_spec [OF build ok] assms(2,3)
  have "orphan_inv ev i (url_source ev (urls ! i)) s0"
    using conn_start [OF assms(1)] by (simp add: orphan_inv_def s0 new_conn_def)
  with cl_orphan.inv_run [OF assms(5)] have "orphan_inv ev i (url_source ev (urls ! i)) s" by simp
  then show ?thesis by (rule orphan_runs)
qed

theorem duplicate_server_leaks_task_witness:
  "\<exists>s0 s. client_system_start cenv_demo (Inr [''a'', ''b'', ''a'']) = Done s0 \<and>
     run (cl_step cenv_demo) (Alive s0) [Attempt 0, Sighup (Inr [''b'']), Aborted 2, Attempt_result 0 (Inr (Inr ()))] (Alive s) \<and>
     co_source (cs_conns s ! 0) = ''a'' \<and> co_phase (cs_conns s ! 0) \<noteq> Stopped"
proof -
  let ?es = "[Attempt 0, Sighup (Inr [''b'']), Aborted 2, Attempt_result 0 (Inr (Inr ()))]"
  have "case client_system_start cenv_demo (Inr [''a'', ''b'', ''a'']) of
      Done s0 \<Rightarrow> cl_trace cenv_demo ?es s0 \<noteq> None | Panic err \<Rightarrow> False" by code_simp
  then obtain s0 s where start: "client_system_start cenv_demo (Inr [''a'', ''b'', ''a'']) = Done s0"
    and t: "cl_trace cenv_demo ?es s0 = Some s" by (auto simp del: exec_trace.simps split: outcome.splits)
  note run = cl_machine.trace_run [OF t]
  from duplicate_server_leaks_task [OF start _ _ _ run, of 0 2] have "co_source (cs_conns s ! 0) = ''a''" "co_phase (cs_conns s ! 0) \<noteq> Stopped"
    by (simp_all add: url_source_def cenv_demo_def)
  with start run show ?thesis by blast
qed

text \<open>The same happens to a server that a reloaded list names twice, if it was not listed before.\<close>

theorem reloaded_duplicate_leaks_task:
  assumes "client_system_start ev r = Done s0" and "run (cl_step ev) (Alive s0) es1 (Alive s1)"
    and "cl_exec ev (Sighup (Inr new)) s1 = Done s2" and "add = filter (\<lambda>x. x \<notin> set (cl_urls (cs_client s1))) new"
    and "i < j" and "j < length add" and "add ! i = add ! j" and "run (cl_step ev) (Alive s2) es2 (Alive s)"
  shows "co_phase (cs_conns s ! (length (cs_conns s1) + i)) \<noteq> Stopped \<and>
     length (cs_conns s1) + i \<notin> snd ` set (cl_tasks (cs_client s))"
proof -
  from cl_conns.inv_run [OF assms(2)] conn_start [OF assms(1)] have inv1: "conn_inv ev s1" by simp
  then have cl: "client_inv (cs_client s1)" and len: "length (cs_conns s1) = cl_spawned (cs_client s1)" by (simp_all add: conn_inv_def)
  let ?cl = "(abort_removed (filter (\<lambda>x. x \<notin> set new) (cl_urls (cs_client s1))) (cs_client s1))\<lparr>cl_urls := new\<rparr>"
  have build: "build_tasks (ce_parse_uri ev) add ?cl = Done (cs_client s2)"
    using assms(3,4) by (auto simp: client_sighup_def handle_sighup_def reload_def Let_def split: if_splits)
  note ab = abort_removed_spec [of "cs_client s1" "filter (\<lambda>x. x \<notin> set new) (cl_urls (cs_client s1))"]
  have "handles_ok (c\<lparr>cl_urls := us\<rparr>) \<longleftrightarrow> handles_ok c" for c us by (simp add: handles_ok_def running_tasks_def)
  with ab cl have "handles_ok ?cl" unfolding client_inv_def by blast
  from build_tasks_orphans [OF build this assms(5-7)] ab cl len have "orphaned (length (cs_conns s1) + i) (cs_client s2)"
    by (simp add: client_inv_def)
  moreover have "conn_inv ev s2" by (rule conn_exec [OF inv1 _ assms(3)]) simp
  ultimately have "orphan_inv ev (length (cs_conns s1) + i) (co_source (cs_conns s2 ! (length (cs_conns s1) + i))) s2"
    by (simp add: orphan_inv_def)
  with cl_orphan.inv_run [OF assms(8)] have "orphan_inv ev (length (cs_conns s1) + i) (co_source (cs_conns s2 ! (length (cs_conns s1) + i))) s"
    by simp
  from orphan_runs [OF this] show ?thesis by blast
qed

end
