(* ===== verification/Spec2Isabelle.thy ===== *)
theory Spec2Isabelle
  imports Balancer_Spec Server_Requests Client_Accounts
begin

text \<open>
  Verification of mtransaction: a server that accepts Solana transactions over JSON-RPC and spreads
  them over connected validator clients, and the client that forwards them to the leaders' TPUs.

  \<^bold>\<open>The program.\<close> The server (\<^verbatim>\<open>server/\<close>) has a registry of connected clients with their stakes,
  the \<^verbatim>\<open>Balancer\<close>, behind a read-write lock. The gRPC server adds and removes clients, one task per
  connection. The updater task installs the upcoming leaders, which the leader stream derives from
  slot notifications and the leader schedule; the stake task reloads stakes once per epoch. The
  JSON-RPC server authenticates a request, decodes the transaction and publishes it: the balancer
  picks clients, splits the leaders' addresses over them and sends each an envelope; clients that
  cannot be reached are flagged and evicted by the next update. A session of every published
  transaction goes to the signature watcher, which later asks the chain for its status. The client
  (\<^verbatim>\<open>client/\<close>) keeps a stream to each listed server, answers pings, feeds metrics, and hands
  transactions to a forwarder (QUIC, RPC or blackhole).

  \<^bold>\<open>The theories\<close>, in the order of their dependencies:

  \<^item> \<open>Mtx_Prelude\<close>, \<open>Hash_Map\<close>, \<open>Registry\<close>: the Rust standard library as the sources use it, and
    the interfaces. \<open>u64\<close> is a 64-bit word and wraps as in a release build; \<open>'a outcome\<close> is a
    result or a panic (both binaries exit on a panic); a \<^verbatim>\<open>HashMap\<close> is its list of entries in
    iteration order, so statements about all lists are statements about all orders. The locales are
    \<open>hash_map\<close> (interpreted by the entry lists), \<open>session_registry\<close> (ownership of identities by
    session tokens, interpreted by the balancer's \<open>subscribe\<close> and \<open>unsubscribe\<close>),
    \<open>inductive_invariant\<close> (interpreted by the balancer machine and by the server machine),
    \<open>preserved\<close> (what labelled steps keep, interpreted once per invariant of a machine),
    \<open>simulation\<close> (runs of a machine are runs of its specification, interpreted by the balancer) and
    \<open>panicking\<close> (a process of events that exits with code 1 when one panics, and with the code of an
    event that ends it; invariants of states and of states with their history; interpreted by both
    binaries).
  \<^item> \<open>Server_Types\<close>, \<open>Server_Metrics\<close>: constants, the wall clock, records and messages; metric operations as a log,
    with \<open>gauge_law\<close> the one documented property of a gauge that is relied on; the exporter.
  \<^item> \<open>Solana_Service\<close> (\<^verbatim>\<open>solana_service.rs\<close>): chain data, leader stream, signature watcher and checker.
    The watcher checks every signature once and in order and drains what is due; the checker counts
    every record once and under the right label; the leader stream sends exactly the changes (it
    equals the reading of its events by \<open>seen_leaders\<close>).
  \<^item> \<open>Balancer\<close> (\<^verbatim>\<open>balancer.rs\<close>), with \<open>Balancer_Registry\<close> (ownership, stake totals, round-trip
    means), \<open>Balancer_Pick\<close> (sampling and distribution of leaders), \<open>Balancer_Publish\<close> (accounts of a
    publication, invariant of all reachable states) and \<open>Balancer_Updater\<close> (the updater task).
    \<open>Balancer_Spec\<close> states what the balancer promises, as a registry of clients, stakes, leaders and
    clients marked for eviction without the order of maps, and proves that the balancer refines it.
  \<^item> \<open>Auth\<close> (\<^verbatim>\<open>auth.rs\<close>): the accepted headers as a grammar, principals. \<open>Rpc_Server\<close>
    (\<^verbatim>\<open>rpc_server.rs\<close>): every branch of a send call, its panics, authenticated forwarding, health,
    the dispatch of methods.
  \<^item> \<open>Grpc_Server\<close> (\<^verbatim>\<open>grpc_server.rs\<close>): the connection task as a state machine with ordered phases, and
    the server as the interleaving of all tasks with the other parts. \<open>Grpc_Sessions\<close>: no consumer
    is leaked, displaced tasks end without harm.
  \<^item> \<open>Server_Main\<close> (\<^verbatim>\<open>server/main.rs\<close>): the start, with the exact conditions for it, the gRPC server that
    \<^verbatim>\<open>main\<close> waits for, and the stake task.
  \<^item> \<open>Server_System\<close>: the server process, all its tasks on their shared state. An event is one atomic
    action of one task with what the world answers; \<open>sys_exec\<close> runs it, \<open>sys_enabled\<close> says when it
    can happen, \<open>sys_quits\<close> which ones end the process, \<open>sys_step\<close> is the resulting machine.
    \<open>Server_Accounts\<close>: every session of a transaction is
    watched, checked and counted once, and the health check is exact. \<open>Server_Traffic\<close>: every message
    is well typed, a failed refresh freezes the leaders, and the events that end the process and with
    which code. \<open>Server_Requests\<close>: with a public key configured, everything handed out goes back to an
    authenticated request.
  \<^item> \<open>Client_Forwarder\<close> (\<^verbatim>\<open>forwarder.rs\<close>, \<^verbatim>\<open>quic_forwarder.rs\<close>, \<^verbatim>\<open>rpc_forwarder.rs\<close>, counters of
    \<^verbatim>\<open>client/metrics.rs\<close>), \<open>Grpc_Client\<close> (\<^verbatim>\<open>grpc_client.rs\<close>, the feeder, the reconnect loop) and
    \<open>Client_Main\<close> (\<^verbatim>\<open>client/main.rs\<close>): permits and counters, what a stream relays, how connections follow
    the server list. \<open>Forwarder_Drain\<close>: the forwarder's tasks finish.
  \<^item> \<open>Client_System\<close>: the client process in the same way (\<open>cl_exec\<close>, \<open>cl_enabled\<close>, \<open>cl_quits\<close>,
    \<open>cl_step\<close>), with its connections, feeders, queue, forwarder tasks, reloads and exporter.
    \<open>Client_Accounts\<close>: no transaction of an answer is lost, listed servers stay connected, a server
    listed twice leaks a task, what a feeder reports, and the events that end the process.
  \<^item> This theory: the properties that span components. The leader schedule near the end of an epoch
    and the choice of consumers; a ping and its pong between server and client; a published
    transaction on its way to the forwarder of a client; any run of the server process together with
    any run of a client process fed by it.

  \<^bold>\<open>Modelling.\<close> State is passed explicitly; concurrent parts are step relations whose steps are the
  code between two awaits or under one lock. Code of other crates is a parameter: random numbers
  (\<open>gen_range_ok\<close> is the documented range), channel sends, JWT verification, base64 and
  bincode, X.509, sockets, files, RPC responses, clocks. Loops are structural recursions or
  \<open>function\<close>s with a proved measure, so no fuel is used anywhere; unbounded task loops are given by
  one round and by the inductive runs over rounds. Bounds appear where words could wrap:
  \<open>weights_fit\<close> (the sum of all stakes plus one each is below \<open>2 ^ 64\<close>; the total supply is below
  \<open>10 ^ 9\<close> SOL), fewer than \<open>2 ^ 63\<close> consumers or connections, fewer than \<open>2 ^ 50\<close> consecutive reconnects.
  Some properties describe behaviour the code most likely does not intend (the end of an epoch,
  starvation and stale totals in sampling, success without delivery, the gauge of a reconnected
  client, failed transactions counted as successes, a server listed twice, a frozen leader set, a
  late start of the exporter, counters shared by servers on one host); they say what the code does.

  The bodies of sleeping or throttled loops can run at any time, which includes their real timing. In
  the client, the read of a changed server list and the reload that follows are one event, and the
  queue of a stream towards its server stays open as long as the stream does.

  The events of the world are not restricted: a client may end its stream or vanish at any time, an
  exporter may fail to bind its address or end, the gRPC server may stop. What is assumed of them is
  said where they are enabled: session tokens, 16 random characters in the code, do not repeat; the
  chain answers with one status per signature; messages handed to a channel stay handed over.

  \<^bold>\<open>Not modelled.\<close> The exact timing of throttled loops and of the threads of the HTTP server; log
  output beyond its level and the formatted status; the prometheus registry, the gossip node, the
  HTTP, gRPC and QUIC transports and the parsing of the command line, which are parameters; the
  build script and the demo. The order in which a \<^verbatim>\<open>HashSet\<close> of TPU addresses is sent is fixed to that
  of first occurrence.
\<close>

section \<open>From the leader schedule to the choice of consumers\<close>

lemma set_map_filter_subset_card:
  "length (hm_values (hm_collect (List.map_filter (\<lambda>i. map_option (Pair i) (f i)) is))) \<le> length is"
proof -
  let ?m = "hm_collect (List.map_filter (\<lambda>i. map_option (Pair i) (f i)) is)"
  have "distinct (map fst ?m)" using hm_ok_collect by (simp add: hm_ok_def)
  then have "length ?m = card (fst ` set ?m)" by (metis distinct_card length_map list.set_map)
  also have "fst ` set ?m \<subseteq> set is"
  proof
    fix k assume "k \<in> fst ` set ?m"
    then have "hm_get ?m k \<noteq> None" by (metis hm_get_None_iff)
    then show "k \<in> set is" by (metis hm_get_collect_leaders)
  qed
  then have "card (fst ` set ?m) \<le> length is" by (meson card_length card_mono finite_set order_trans)
  finally show ?thesis by (simp add: hm_values_def)
qed

text \<open>
  C30. The server stops near the end of an epoch. In the last eight slots of an epoch the leader
  stream can name at most two leaders. When the updater installs them and at least one of them has
  a validator record, every forwarded transaction that decodes makes the choice of consumers split
  the leader list into chunks of length zero, which panics and ends the server, as long as a client
  is connected.
\<close>

theorem epoch_end_stops_server:
  assumes "\<forall>s l. hm_get sched s = Some l \<longrightarrow> unat s < unat SLOTS_PER_EPOCH"
    and "unat SLOTS_PER_EPOCH - unat (slot mod SLOTS_PER_EPOCH) \<le> 8"
    and "updater_step pk tq (New_leaders (current_leaders sched slot)) u = Done (u', effs)"
    and "leader_tpus (up_balancer u') \<noteq> []"
    and "bal_inv (up_balancer u)" and "stake_synced (up_balancer u')" and "weights_fit (up_balancer u')"
    and "tx_consumers (up_balancer u') \<noteq> []" and "gen_range_ok gen_range"
    and "rp_auth meta = Inr a" and "rp_mode meta = FORWARD" and "config = Some \<lparr>cf_skip_preflight = Some True\<rparr>"
    and "b64 data = Some wire" and "dec wire = Inr (sg # sgs)"
  shows "\<exists>e. send_priority_transaction gen_range send b64 dec str created ctime rtime rng meta data config
     (up_balancer u') w = Panic e"
proof -
  let ?b = "up_balancer u'"
  let ?m = "hm_collect (List.map_filter (\<lambda>i. map_option (Pair i) (leader_contact pk tq (up_info_map u) i))
      (current_leaders sched slot))"
  have u': "?b = fst (flush_unsubscribes (set_leaders (hm_values ?m) ?m (up_balancer u)))"
    using assms(3) unfolding updater_new_leaders by (auto simp: Let_def split: if_splits)
  then have lead: "leader_tpus ?b = hm_values (leaders ?b)" and ls: "leader_tpus ?b = hm_values ?m" by simp_all
  have inv: "bal_inv ?b" unfolding u' using assms(5) by (simp add: mtx_inv)
  have "length (leader_tpus ?b) \<le> length (current_leaders sched slot)"
    unfolding ls by (rule set_map_filter_subset_card)
  also have "\<dots> \<le> (unat SLOTS_PER_EPOCH - unat (slot mod SLOTS_PER_EPOCH) + 3) div 4"
    by (rule length_current_leaders_epoch [OF assms(1)])
  also have "\<dots> < N_CONSUMERS" using assms(2) by (simp add: N_CONSUMERS_def)
  finally have "length (leader_tpus ?b) < N_CONSUMERS" .
  with chunk_len_zero_iff [OF inv assms(9,6,7,8) lead] assms(4)
  have "\<exists>e. pick_consumers gen_range rng ?b = Panic e"
    by (auto simp: pick_consumers_chosen Let_def)
  with assms(10-14) show ?thesis
    unfolding send_Panic_iff admitted_def first_signature_def by auto
qed

theorem epoch_end_stops_server_witness:
  "\<exists>u' effs. updater_step Some (\<lambda>_. None) (New_leaders (current_leaders [(431996, ''x'')] 863996))
       \<lparr>up_balancer = two_clients, up_info_map = [(''x'', leader_at ''x'')]\<rparr> = Done (u', effs) \<and>
     (\<exists>e. send_priority_transaction gen_last (channel_send (\<lambda>_. True)) b64_demo dec_demo id 0 (Done 1) (Done 2) ()
       (meta_demo FORWARD) ''tx'' (Some \<lparr>cf_skip_preflight = Some True\<rparr>) (up_balancer u') [] = Panic e)"
proof -
  let ?sched = "[(431996 :: u64, ''x'')]" and ?slot = "863996 :: u64"
  let ?u = "\<lparr>up_balancer = two_clients, up_info_map = [(''x'', leader_at ''x'')]\<rparr>"
  have cur: "current_leaders ?sched ?slot = [''x'']" by code_simp
  have flush: "flush_unsubscribes (with_leaders [''x'']) = (with_leaders [''x''], [])"
    by (simp add: flush_unsubscribes_def with_leaders_def hm_values_def two_clients_consumers)
  have "with_leaders [''x''] = set_leaders [leader_at ''x''] [(''x'', leader_at ''x'')] two_clients"
    by (simp add: with_leaders_def)
  with flush have step: "updater_step Some (\<lambda>_. None) (New_leaders (current_leaders ?sched ?slot)) ?u =
      Done (?u\<lparr>up_balancer := with_leaders [''x'']\<rparr>, [])"
    by (simp add: cur lookup_info_def hm_get_Cons hm_collect_def hm_values_def Let_def)
  have epoch: "\<forall>s l. hm_get ?sched s = Some l \<longrightarrow> unat s < unat SLOTS_PER_EPOCH"
    by (simp add: hm_get_def SLOTS_PER_EPOCH_def)
  have near: "unat SLOTS_PER_EPOCH - unat (?slot mod SLOTS_PER_EPOCH) \<le> 8" by (simp add: SLOTS_PER_EPOCH_def)
  have "\<exists>e. send_priority_transaction gen_last (channel_send (\<lambda>_. True)) b64_demo dec_demo id 0 (Done 1) (Done 2) ()
       (meta_demo FORWARD) ''tx'' (Some \<lparr>cf_skip_preflight = Some True\<rparr>) (up_balancer (?u\<lparr>up_balancer := with_leaders [''x'']\<rparr>)) [] = Panic e"
    by (rule epoch_end_stops_server [OF epoch near step _ _ _ _ _ gen_last_ok, where a = "Allow ''p''" and wire = "''tx''"
          and sg = "''tx''" and sgs = "[]"])
       (simp_all add: with_leaders_facts(1-4,6) two_clients_facts meta_demo_def b64_demo_def dec_demo_def)
  with step show ?thesis by blast
qed

section \<open>Between server and client\<close>

text \<open>
  C29. A ping is answered and measured once. The ping a connection task sends, handled by the client,
  comes back as a pong for which the task records exactly one round-trip sample of its client, taken
  from the instant of that ping; a pong for any other ping records nothing.
\<close>

theorem ping_round_trip_measured:
  assumes "alive (se_tx s)"
  shows "\<exists>s' env. session_select (channel_send alive) (Ping_hint now) s b w = Done (s', b, w @ [(se_tx s, env)], []) \<and>
     (\<exists>pong. process_upstream_message True True source (Inr env) q = q\<lparr>sq_upstream := sq_upstream q @ [pong]\<rparr> \<and>
        session_select send (Client_message (Some (Inr pong)) elapsed) s' b w' =
          Done (s', b, w', [Hist_observe CLIENT_PING_RTT [se_identity s] (real (elapsed now) / 1000000)])) \<and>
     (\<forall>n. n \<noteq> pg_id (se_last_ping s') \<longrightarrow>
        session_select send (Client_message (Some (Inr (empty_request\<lparr>rq_pong := Some (u64_to_string n)\<rparr>))) elapsed) s' b w' =
          Done (s', b, w', []))"
proof -
  let ?n = "pg_id (se_ping_hint s) + 1"
  let ?s' = "s\<lparr>se_ping_hint := (se_ping_hint s)\<lparr>pg_id := ?n\<rparr>, se_last_ping := \<lparr>pg_id = ?n, pg_at = now\<rparr>\<rparr>"
  let ?env = "build_ping_message_envelope (u64_to_string ?n)"
  let ?pong = "empty_request\<lparr>rq_pong := Some (u64_to_string ?n)\<rparr>"
  have "session_select (channel_send alive) (Ping_hint now) s b w = Done (?s', b, w @ [(se_tx s, ?env)], [])"
    using assms by (simp add: ping_next_def channel_send_def)
  moreover have "process_upstream_message True True source (Inr ?env) q = q\<lparr>sq_upstream := sq_upstream q @ [?pong]\<rparr>"
    by (simp add: process_upstream_message_def process_ping_def build_ping_message_envelope_def)
  moreover have "session_select send (Client_message (Some (Inr ?pong)) elapsed) ?s' b w' =
      Done (?s', b, w', [Hist_observe CLIENT_PING_RTT [se_identity s] (real (elapsed now) / 1000000)])"
    by (simp add: handle_client_request_def handle_client_pong_def empty_request_def)
  moreover have "\<forall>n. n \<noteq> pg_id (se_last_ping ?s') \<longrightarrow>
      session_select send (Client_message (Some (Inr (empty_request\<lparr>rq_pong := Some (u64_to_string n)\<rparr>))) elapsed) ?s' b w' =
        Done (?s', b, w', [])"
    by (auto simp: handle_client_request_def handle_client_pong_def empty_request_def)
  ultimately show ?thesis by blast
qed

text \<open>A connection task and empty queues, for the witness.\<close>

definition session_demo :: session where
  "session_demo = \<lparr>se_identity = ''v'', se_token = ''t'', se_tx = 1, se_rx_unsubscribe = 1,
     se_ping_hint = ping_new 0, se_last_ping = ping_new 0, se_phase = Running\<rparr>"

theorem ping_round_trip_measured_witness:
  "\<exists>s' env. session_select (channel_send (\<lambda>_. True)) (Ping_hint 5) session_demo two_clients [] =
     Done (s', two_clients, [(1, env)], [])"
proof -
  have "se_tx session_demo = 1" by (simp add: session_demo_def)
  moreover have "\<exists>s' env. session_select (channel_send (\<lambda>_. True)) (Ping_hint 5) session_demo two_clients [] =
      Done (s', two_clients, [] @ [(se_tx session_demo, env)], [])"
    using ping_round_trip_measured [where alive = "\<lambda>_. True" and s = session_demo and now = 5 and b = two_clients
        and w = "[]" and source = "''srv''" and q = "\<lparr>sq_upstream = [], sq_transactions = []\<rparr>"
        and send = "\<lambda>ch msg w. (True, w)" and elapsed = "\<lambda>_. 0" and w' = "()", OF TrueI] by blast
  ultimately show ?thesis unfolding append_Nil by metis
qed

text \<open>
  C9. A published transaction reaches the leaders. If every client is reachable, then for every
  leader the balancer knows, some connected client receives the transaction with its signature and
  payload unchanged and with the leader's TPU address among its targets, takes it from its stream,
  and its QUIC forwarder starts a task for that address.
\<close>

theorem published_transaction_reaches_every_leader:
  assumes "pick_consumers gen_range rng b = Done ps" and "ps \<noteq> []" and "leader \<in> set (leader_tpus b)"
  shows "\<exists>b' msgs session' c env tx. publish gen_range (channel_send (\<lambda>_. True)) rng session signature data b [] =
       Done (Inr (), b', msgs, Some session') \<and>
     c \<in> snd ` set (tx_consumers b) \<and> tc_identity c \<in> set (sr_consumers session') \<and> (tc_tx c, env) \<in> set msgs \<and>
     sq_transactions (process_upstream_message True True source (Inr env) q) =
       sq_transactions q @ [\<lparr>fo_source = source, fo_transaction = tx\<rparr>] \<and>
     tr_data tx = data \<and> tr_signature tx = signature \<and>
     Some (li_tpu leader) \<in> ft_tpu ` set (fs_tasks (process (Quic n cert) source tx st))"
proof -
  from pick_consumers_reaches [OF assms] obtain c info where c: "(c, info) \<in> set ps" "leader \<in> set info" by auto
  from publish_loop_channel [of "\<lambda>_. True" signature data ps session b "[]"] obtain session' where
    loop: "publish_loop (channel_send (\<lambda>_. True)) signature data ps session b [] =
      (session', b, map (envelope_for signature data) ps)"
    and cons: "sr_consumers session' = sr_consumers session @ map (tc_identity \<circ> fst) ps"
    by auto
  let ?tx = "\<lparr>tr_data = data, tr_signature = signature, tr_tpu = remdups (map li_tpu info)\<rparr>"
  let ?env = "build_tx_message_envelope signature data (remdups (map li_tpu info))"
  have "publish gen_range (channel_send (\<lambda>_. True)) rng session signature data b [] =
      Done (Inr (), b, map (envelope_for signature data) ps, Some session')"
    using assms(1,2) loop by (simp add: publish_def)
  moreover have "c \<in> snd ` set (tx_consumers b)"
    using chosen_connected [of c gen_range rng b] pick_consumers_fst [OF assms(1)] c(1)
    by (metis fst_conv image_eqI list.set_map)
  moreover have "tc_identity c \<in> set (sr_consumers session')" unfolding cons using c(1) by force
  moreover have "(tc_tx c, ?env) \<in> set (map (envelope_for signature data) ps)"
    using c(1) by (force simp: envelope_for_def hs_collect_def)
  moreover have "sq_transactions (process_upstream_message True True source (Inr ?env) q) =
      sq_transactions q @ [\<lparr>fo_source = source, fo_transaction = ?tx\<rparr>]"
    by (simp add: process_upstream_message_def process_transaction_def build_tx_message_envelope_def)
  moreover have "Some (li_tpu leader) \<in> ft_tpu ` set (fs_tasks (process (Quic n cert) source ?tx st))"
    using quic_process_targets [of "li_tpu leader" ?tx n cert source st] c(2) by simp
  ultimately show ?thesis by (intro exI [of _ b] exI [of _ "map (envelope_for signature data) ps"] exI [of _ session']
      exI [of _ c] exI [of _ ?env] exI [of _ ?tx]) simp
qed

theorem published_transaction_reaches_every_leader_witness:
  "\<exists>b' msgs session' (c :: tx_consumer) env. publish gen_last (channel_send (\<lambda>_. True)) () session0 ''sig'' ''data''
       (with_leaders [''x'', ''y'', ''z'']) [] = Done (Inr (), b', msgs, Some session') \<and>
     tc_identity c \<in> set (sr_consumers session') \<and> (tc_tx c, env) \<in> set msgs"
proof -
  obtain ps where ps: "pick_consumers gen_last () (with_leaders [''x'', ''y'', ''z'']) = Done ps" "ps \<noteq> []"
    using with_leaders_pick [of "[''x'', ''y'', ''z'']"] by (auto simp: N_CONSUMERS_def)
  have "leader_at ''x'' \<in> set (leader_tpus (with_leaders [''x'', ''y'', ''z'']))" by (simp add: with_leaders_facts(6))
  from published_transaction_reaches_every_leader [OF ps this, where session = session0 and signature = "''sig''" and data = "''data''"
      and source = "''srv''" and q = "\<lparr>sq_upstream = [], sq_transactions = []\<rparr>" and n = 1 and cert = "None :: unit option"
      and st = "fwd_init (Quic 1 (None :: unit option))"]
  show ?thesis by blast
qed

section \<open>A server and a client\<close>

text \<open>A transaction of a server's messages, and what the client can rely on.\<close>

definition sent_by :: "(chan \<times> response_envelope) list \<Rightarrow> pb_transaction \<Rightarrow> bool" where
  "sent_by sent tx \<longleftrightarrow> (\<exists>(ch, m) \<in> set sent. rs_transaction m = Some tx)"

lemma sent_parseable:
  assumes "traffic_ok ev msgs s" and "sent_by (msgs (sv_runtime (sy_server s))) tx"
    and "\<And>data. ev_base64 ev data \<noteq> None \<Longrightarrow> decode data \<noteq> None" and "\<And>a. parse (ev_addr_string ev a) \<noteq> None"
  shows "parseable parse decode tx"
proof -
  from assms(1,2) have "\<exists>sg data tpus. tx = \<lparr>tr_data = data, tr_signature = ev_sig_string ev sg, tr_tpu = tpus\<rparr> \<and>
      first_signature (ev_base64 ev) (ev_decode ev) data = Some sg \<and> set tpus \<subseteq> range (ev_addr_string ev)"
    unfolding traffic_ok_def sent_by_def envelope_ok_def
    by (fastforce simp: build_ping_message_envelope_def build_tx_message_envelope_def)
  then obtain sg data tpus where tx: "tx = \<lparr>tr_data = data, tr_signature = ev_sig_string ev sg, tr_tpu = tpus\<rparr>"
    "first_signature (ev_base64 ev) (ev_decode ev) data = Some sg" "set tpus \<subseteq> range (ev_addr_string ev)" by blast
  from tx(2) have "ev_base64 ev data \<noteq> None" by (auto simp: first_signature_def split: option.splits)
  with tx(1,3) assms(3,4) show ?thesis by (auto simp: parseable_def)
qed

text \<open>
  C3. The server's traffic never stops a client, and all of it is forwarded. Take any run of a server
  and any run of a client whose servers answer with transactions of that server only, where both use
  the same base64 and the client parses the socket addresses the server prints. Then no QUIC or RPC
  task of the client can panic, and if the forwarder has at least one permit, its tasks can always be
  run to the end, in at most three steps per task; at the end each transaction taken from the queue has been
  sent once to each of its targets, with one success or one failure counted for each.
\<close>

theorem served_transactions_are_forwarded:
  assumes "send_law (ev_send ev) msgs" and "msgs w = []"
    and "run (sys_step ev msgs) (Alive (sys_init inbox w l sub)) es (Alive s)"
    and "client_system_start cev r = Done c0" and "run (cl_step cev) (Alive c0) es' (Alive c)"
    and "\<And>i env tx. Response i (Some (Inr env)) \<in> set es' \<Longrightarrow> rs_transaction env = Some tx \<Longrightarrow>
      sent_by (msgs (sv_runtime (sy_server s))) tx"
    and "\<And>data. ev_base64 ev data \<noteq> None \<Longrightarrow> ce_base64 cev data \<noteq> None" and "\<And>a. ce_parse_tpu cev (ev_addr_string ev a) \<noteq> None"
    and "0 < fs_max_permits (fwd_init (ce_forwarder cev))"
  shows "(\<forall>e. cl_enabled (Forward_task e) c \<longrightarrow> \<not> cl_step cev (Alive c) (Forward_task e) (Exited 1)) \<and>
     (\<exists>steps st'. run (task_step (ce_get_permits cev) (ce_parse_tpu cev) (ce_base64 cev)) (cs_fwd c) steps st' \<and>
        length steps \<le> 3 * length (fs_tasks (cs_fwd c)) \<and> (\<forall>t \<in> set (fs_tasks st'). ft_phase t = Ended) \<and>
        map (\<lambda>t. (ft_source t, ft_transaction t, ft_tpu t)) (fs_tasks st') =
          concat (map (\<lambda>tx. map (\<lambda>t. (fo_source tx, fo_transaction tx, t)) (targets (ce_forwarder cev) tx)) (cs_processed c)) \<and>
        count_list (fs_ops st') (Count TX_FORWARD_SUCCEEDED_COUNT src) + count_list (fs_ops st') (Count TX_FORWARD_FAILED_COUNT src) =
          length (filter (\<lambda>t. ft_source t = src) (fs_tasks st')))"
proof
  from sys_typed.inv_run [OF assms(3)] typed_init [OF assms(1,2)] have typed: "traffic_ok ev msgs s" by (simp add: typed_def)
  from cl_flow.inv_run [OF assms(5)] flow_start [OF assms(4)] have inv: "fwd_inv (ce_forwarder cev) (cs_processed c) (cs_fwd c)"
    by (simp add: flow_inv_def)
  have "sent_by (msgs (sv_runtime (sy_server s))) (fo_transaction tx)" if "tx \<in> set (cs_processed c)" for tx
    using arrivals_member [of tx c es'] arrivals_run [OF assms(5)] start_empty [OF assms(4)] that assms(6) by auto
  then have ok: "\<forall>tx \<in> set (cs_processed c). parseable (ce_parse_tpu cev) (ce_base64 cev) (fo_transaction tx)"
    using sent_parseable [where parse = "ce_parse_tpu cev" and decode = "ce_base64 cev", OF typed _ assms(7,8)] by blast
  have perm: "0 < permits (ce_forwarder cev)" using assms(9) by (simp add: permits_def)
  show "\<forall>e. cl_enabled (Forward_task e) c \<longrightarrow> \<not> cl_step cev (Alive c) (Forward_task e) (Exited 1)"
  proof (intro allI impI)
    fix e assume en: "cl_enabled (Forward_task e) c"
    have "\<exists>st'. task_exec cev e (cs_fwd c) = Done st'"
      using en begin_succeeds [OF inv ok] by (cases e) simp_all
    then show "\<not> cl_step cev (Alive c) (Forward_task e) (Exited 1)"
      unfolding cl_machine.exits_iff [OF en] by auto
  qed
  from drains [OF inv ok perm] obtain steps st' where
    r: "run (task_step (ce_get_permits cev) (ce_parse_tpu cev) (ce_base64 cev)) (cs_fwd c) steps st'" and w: "work st' = 0" by blast
  have inv': "fwd_inv (ce_forwarder cev) (cs_processed c) st'" by (rule forwarder_tasks.inv_run [OF r inv])
  have ended: "\<forall>t \<in> set (fs_tasks st'). ft_phase t = Ended" using work_done [OF inv' w] by simp
  moreover have "length steps \<le> 3 * length (fs_tasks (cs_fwd c))" using run_work [OF r] work_le [of "cs_fwd c"] by linarith
  moreover have "ended_for src st' = length (filter (\<lambda>t. ft_source t = src) (fs_tasks st'))"
    unfolding ended_for_def using ended by (intro arg_cong [where f = length] filter_cong) auto
  moreover have "ce_forwarder cev \<noteq> Blackhole" using assms(9) by (auto simp: fwd_init_def)
  ultimately show "\<exists>steps st'. run (task_step (ce_get_permits cev) (ce_parse_tpu cev) (ce_base64 cev)) (cs_fwd c) steps st' \<and>
        length steps \<le> 3 * length (fs_tasks (cs_fwd c)) \<and> (\<forall>t \<in> set (fs_tasks st'). ft_phase t = Ended) \<and>
        map (\<lambda>t. (ft_source t, ft_transaction t, ft_tpu t)) (fs_tasks st') =
          concat (map (\<lambda>tx. map (\<lambda>t. (fo_source tx, fo_transaction tx, t)) (targets (ce_forwarder cev) tx)) (cs_processed c)) \<and>
        count_list (fs_ops st') (Count TX_FORWARD_SUCCEEDED_COUNT src) + count_list (fs_ops st') (Count TX_FORWARD_FAILED_COUNT src) =
          length (filter (\<lambda>t. ft_source t = src) (fs_tasks st'))"
    using r inv' by (intro exI [of _ steps] exI [of _ st'])
      (cases "ce_forwarder cev", simp_all add: fwd_inv_def jobs_def task_job_def [abs_def] counted_def)
qed

text \<open>The first message of the server's run, as a client receives and starts to forward it.\<close>

definition relay_demo :: "client_event list" where
  "relay_demo =
     [Attempt 0, Attempt_result 0 (Inr (Inr ())),
      Response 0 (Some (Inr (build_tx_message_envelope ''tx'' ''tx'' [''a:8009'', ''c:8009'']))), Forward, Forward_task (Begin 1)]"

theorem served_transactions_are_forwarded_witness:
  "\<exists>c steps st'. run (cl_step cenv_demo) (Alive client_demo) relay_demo (Alive c) \<and> length (fs_tasks (cs_fwd c)) = 2 \<and>
     run (task_step (ce_get_permits cenv_demo) (ce_parse_tpu cenv_demo) (ce_base64 cenv_demo)) (cs_fwd c) steps st' \<and>
     map ft_phase (fs_tasks st') = map (\<lambda>t. Ended) (fs_tasks st')"
proof -
  let ?tx = "\<lparr>tr_data = ''tx'', tr_signature = ''tx'', tr_tpu = [''a:8009'', ''c:8009'']\<rparr>"
  have "case sys_trace env_demo id (connect_demo @ leaders_demo @ call_demo) sys_demo of
      Some s \<Rightarrow> list_ex (\<lambda>(ch, m). rs_transaction m = Some ?tx) (sv_runtime (sy_server s)) | None \<Rightarrow> False" by code_simp
  then obtain s where "sys_trace env_demo id (connect_demo @ leaders_demo @ call_demo) sys_demo = Some s"
    and sent: "sent_by (id (sv_runtime (sy_server s))) ?tx"
    by (auto simp: list_ex_iff sent_by_def split: option.splits)
  note server = sys_machine.trace_run [OF this(1), unfolded sys_demo_def]
  have "case cl_trace cenv_demo relay_demo client_demo of
      Some c \<Rightarrow> length (fs_tasks (cs_fwd c)) = 2 | None \<Rightarrow> False" by code_simp
  then obtain c where "cl_trace cenv_demo relay_demo client_demo = Some c"
    and c: "length (fs_tasks (cs_fwd c)) = 2" by (auto split: option.splits)
  note client = cl_machine.trace_run [OF this(1)]
  have "send_law (ev_send env_demo) id" by (simp add: env_demo_def send_law_channel)
  moreover have "sent_by (id (sv_runtime (sy_server s))) tx"
    if "Response i (Some (Inr env)) \<in> set relay_demo" "rs_transaction env = Some tx" for i env tx
    using sent that by (auto simp: relay_demo_def build_tx_message_envelope_def)
  moreover have "ce_base64 cenv_demo data \<noteq> None" "ce_parse_tpu cenv_demo a \<noteq> None" for data a by (simp_all add: cenv_demo_def)
  moreover have "0 < fs_max_permits (fwd_init (ce_forwarder cenv_demo))" by (simp add: cenv_demo_def fwd_init_def)
  ultimately obtain steps st' where
    "run (task_step (ce_get_permits cenv_demo) (ce_parse_tpu cenv_demo) (ce_base64 cenv_demo)) (cs_fwd c) steps st'"
    "\<forall>t \<in> set (fs_tasks st'). ft_phase t = Ended"
    using served_transactions_are_forwarded [where msgs = id, OF _ _ server client_demo_start client, of "''a''"] by auto
  with client c show ?thesis by (intro exI [of _ c] exI [of _ steps] exI [of _ st']) (simp cong: map_cong)
qed

end
